theory Spec2Isabelle
  imports Complex_Main "HOL-Library.AList"
begin

section \<open>Cost tracking of nodeconductor: price estimates and consumption details\<close>

text \<open>
  A shallow embedding of \<^verbatim>\<open>nodeconductor/cost_tracking/models.py\<close> and of the
  backend register of \<^verbatim>\<open>nodeconductor/cost_tracking/__init__.py\<close>.

  Conventions of the embedding:
  \<^item> Python floats (\<^verbatim>\<open>total\<close>, \<^verbatim>\<open>consumed\<close>, \<^verbatim>\<open>monthly_cost\<close>, the result of
    \<^verbatim>\<open>total_seconds()\<close>) are exact rationals; the binary rounding of IEEE doubles is
    not modelled.
  \<^item> Python integers are \<open>int\<close>.
  \<^item> An aware \<^verbatim>\<open>datetime\<close> in UTC is a record of its calendar fields; the difference of
    two datetimes (a \<^verbatim>\<open>timedelta\<close>) is an integer number of microseconds.
  \<^item> A JSON dictionary is an association list with distinct keys; the order of the list
    is the iteration order of the dictionary.
  \<^item> A database table is the list of its rows; an exception is the left summand of a sum.
\<close>

subsection \<open>Exceptions\<close>

datatype exn =
    ConsumptionDetailUpdateError
  | KeyError
  | IllegalMonthError
  | ValueError
  | OverflowError
  | AttributeError
  | MultipleObjectsReturned
  | IntegrityError
  | DoesNotExist
  | MethodNotAllowed

subsection \<open>Calendar and datetime\<close>

record datetime =
  dt_year :: int
  dt_month :: int
  dt_day :: int
  dt_hour :: int
  dt_minute :: int
  dt_second :: int
  dt_microsecond :: int

type_synonym timedelta = int

definition isleap :: "int \<Rightarrow> bool" where
  "isleap y = (y mod 4 = 0 \<and> (y mod 100 \<noteq> 0 \<or> y mod 400 = 0))"

text \<open>\<^verbatim>\<open>calendar.monthrange(year, month)[1]\<close>, for a month between 1 and 12.\<close>

definition mdays :: "int \<Rightarrow> int \<Rightarrow> int" where
  "mdays y m =
     (if m = 2 then (if isleap y then 29 else 28)
      else if m = 4 \<or> m = 6 \<or> m = 9 \<or> m = 11 then 30
      else 31)"

definition monthrange_days :: "int \<Rightarrow> int \<Rightarrow> exn + int" where
  "monthrange_days y m =
     (if 1 \<le> m \<and> m \<le> 12 then Inr (mdays y m) else Inl IllegalMonthError)"

definition days_before_year :: "int \<Rightarrow> int" where
  "days_before_year y = (y - 1) * 365 + (y - 1) div 4 - (y - 1) div 100 + (y - 1) div 400"

definition days_before_month :: "int \<Rightarrow> int \<Rightarrow> int" where
  "days_before_month y m = sum_list (map (mdays y) [1 .. m - 1])"

definition toordinal :: "int \<Rightarrow> int \<Rightarrow> int \<Rightarrow> int" where
  "toordinal y m d = days_before_year y + days_before_month y m + d"

definition us_per_second :: int where
  "us_per_second = 1000000"

definition us_per_day :: int where
  "us_per_day = 86400 * us_per_second"

text \<open>The instant of a UTC datetime, in microseconds since the start of day 0 of the
  proleptic Gregorian calendar.\<close>

definition instant :: "datetime \<Rightarrow> int" where
  "instant d =
     (((toordinal (dt_year d) (dt_month d) (dt_day d) * 24 + dt_hour d) * 60
        + dt_minute d) * 60 + dt_second d) * us_per_second + dt_microsecond d"

text \<open>\<^verbatim>\<open>timedelta(days=n)\<close> and \<^verbatim>\<open>timedelta.total_seconds()\<close>.\<close>

definition timedelta_days :: "int \<Rightarrow> timedelta" where
  "timedelta_days n = n * us_per_day"

definition total_seconds :: "timedelta \<Rightarrow> rat" where
  "total_seconds td = of_int td / of_int us_per_second"

text \<open>\<^verbatim>\<open>int(x)\<close> on a float: truncation toward zero.\<close>

definition py_int :: "rat \<Rightarrow> int" where
  "py_int x = (if 0 \<le> x then \<lfloor>x\<rfloor> else \<lceil>x\<rceil>)"

text \<open>\<^verbatim>\<open>round(x, 2)\<close> of Python 2: to the nearest hundredth, a tie away from zero.\<close>

definition round2 :: "rat \<Rightarrow> rat" where
  "round2 x =
     (if 0 \<le> x then of_int \<lfloor>x * 100 + 1 / 2\<rfloor> / 100
      else - (of_int \<lfloor>- x * 100 + 1 / 2\<rfloor> / 100))"

text \<open>\<^verbatim>\<open>d.replace(day=1, hour=0, minute=0, second=0)\<close>: the microsecond is kept.\<close>

definition replace_month_start :: "datetime \<Rightarrow> datetime" where
  "replace_month_start d = d\<lparr>dt_day := 1, dt_hour := 0, dt_minute := 0, dt_second := 0\<rparr>"

text \<open>
  \<^verbatim>\<open>d - relativedelta(months=+1)\<close>: the month before, the day clipped to the length of
  that month (\<^verbatim>\<open>calendar.monthrange\<close>), the time of day kept; a year below 1 is refused.
\<close>

definition sub_month :: "datetime \<Rightarrow> exn + datetime" where
  "sub_month d =
     (let m0 = dt_month d - 1;
          y = (if m0 < 1 then dt_year d - 1 else dt_year d);
          m = (if m0 < 1 then m0 + 12 else m0)
      in case monthrange_days y m of
           Inl e \<Rightarrow> Inl e
         | Inr n \<Rightarrow>
             if y < 1 then Inl ValueError
             else Inr (d\<lparr>dt_year := y, dt_month := m, dt_day := min n (dt_day d)\<rparr>))"

subsection \<open>Dictionaries\<close>

type_synonym ('k, 'v) dict = "('k \<times> 'v) list"

definition keys :: "('k, 'v) dict \<Rightarrow> 'k list" where
  "keys d = map fst d"

text \<open>\<^verbatim>\<open>d.get(k, 0)\<close>\<close>

definition get0 :: "('k, int) dict \<Rightarrow> 'k \<Rightarrow> int" where
  "get0 d k = (case map_of d k of None \<Rightarrow> 0 | Some v \<Rightarrow> v)"

text \<open>\<^verbatim>\<open>d[k]\<close>\<close>

definition getitem :: "('k, 'v) dict \<Rightarrow> 'k \<Rightarrow> exn + 'v" where
  "getitem d k = (case map_of d k of None \<Rightarrow> Inl KeyError | Some v \<Rightarrow> Inr v)"

text \<open>\<^verbatim>\<open>d[k] = v\<close>\<close>

definition setitem :: "('k, 'v) dict \<Rightarrow> 'k \<Rightarrow> 'v \<Rightarrow> ('k, 'v) dict" where
  "setitem d k v = AList.update k v d"

text \<open>\<^verbatim>\<open>a == b\<close> on dictionaries: the same keys with the same values, in any order.\<close>

definition dict_eq :: "('k, 'v) dict \<Rightarrow> ('k, 'v) dict \<Rightarrow> bool" where
  "dict_eq a b =
     (list_all (\<lambda>(k, v). map_of b k = Some v) a \<and> list_all (\<lambda>(k, v). map_of a k = Some v) b)"

subsection \<open>The scope of an estimate\<close>

text \<open>
  The content type of a scope: the model class of the object an estimate is attached to.
  \<^verbatim>\<open>PayableMixin.get_all_models()\<close> is the list of resource models; the name of the
  concrete model class distinguishes the models of one kind.
\<close>

datatype model_class =
    ResourceModel string
  | ServiceProjectLinkModel string
  | ServiceModel string
  | ServiceSettings
  | Project
  | Customer

type_synonym scope_ref = "model_class \<times> nat"

fun is_payable_model :: "model_class \<Rightarrow> bool" where
  "is_payable_model (ResourceModel _) = True"
| "is_payable_model _ = False"

subsection \<open>PriceEstimate\<close>

record PriceEstimate =
  pe_id :: nat
  content_type :: "model_class option"
  object_id :: "nat option"
  scope_customer :: "nat option"
  leafs :: "nat list"
  total :: rat
  consumed :: rat
  details :: "(string, string) dict"
  limit :: rat
  month :: int
  year :: int
  is_manually_input :: bool
  is_visible :: bool

subsection \<open>ConsumptionDetails\<close>

record ConsumptionDetails =
  price_estimate :: PriceEstimate
  configuration :: "(string, int) dict"
  last_update_time :: datetime
  consumed_before_update :: "(string, int) dict"

text \<open>\<^verbatim>\<open>ConsumptionDetails._get_minutes_from_last_update\<close>; the argument is an instant.\<close>

definition get_minutes_from_last_update :: "ConsumptionDetails \<Rightarrow> int \<Rightarrow> int" where
  "get_minutes_from_last_update d time =
     (let time_from_last_update = time - instant (last_update_time d)
      in py_int (total_seconds time_from_last_update / 60))"

text \<open>The loop of \<^verbatim>\<open>update_configuration\<close> over the items of the old configuration.\<close>

fun accumulate :: "int \<Rightarrow> (string, int) dict \<Rightarrow> (string, int) dict \<Rightarrow> (string, int) dict" where
  "accumulate minutes [] cbu = cbu"
| "accumulate minutes ((consumable, usage) # items) cbu =
     accumulate minutes items
       (setitem cbu consumable (get0 cbu consumable + usage * minutes))"

text \<open>\<^verbatim>\<open>ConsumptionDetails.update_configuration\<close>, with \<^verbatim>\<open>timezone.now()\<close> as \<open>now\<close>.\<close>

definition update_configuration ::
  "datetime \<Rightarrow> ConsumptionDetails \<Rightarrow> (string, int) dict \<Rightarrow> exn + ConsumptionDetails" where
  "update_configuration now d new_configuration =
     (if dict_eq new_configuration (configuration d) then Inr d
      else if dt_month now \<noteq> month (price_estimate d) then Inl ConsumptionDetailUpdateError
      else
        let minutes_from_last_update = get_minutes_from_last_update d (instant now)
        in Inr (d\<lparr>consumed_before_update :=
                     accumulate minutes_from_last_update (configuration d)
                       (consumed_before_update d),
                   configuration := new_configuration,
                   last_update_time := now\<rparr>))"

text \<open>
  \<^verbatim>\<open>ConsumptionDetails._get_month_end\<close>: the last microsecond of the estimate's month
  in the current time zone, as an instant. \<open>tz\<close> is the UTC offset of
  \<^verbatim>\<open>timezone.get_current_timezone()\<close> in microseconds.
\<close>

definition get_month_end :: "int \<Rightarrow> ConsumptionDetails \<Rightarrow> exn + int" where
  "get_month_end tz d =
     (let y = year (price_estimate d); m = month (price_estimate d)
      in case monthrange_days y m of
           Inl e \<Rightarrow> Inl e
         | Inr days_in_month \<Rightarrow>
             if y < 1 \<or> 9999 < y then Inl ValueError
             else Inr (instant \<lparr>dt_year = y, dt_month = m, dt_day = days_in_month,
                                dt_hour = 23, dt_minute = 59, dt_second = 59,
                                dt_microsecond = 999999\<rparr> - tz))"

text \<open>The loop of the property \<^verbatim>\<open>consumed\<close> over the union of the keys.\<close>

fun consumed_loop ::
  "ConsumptionDetails \<Rightarrow> int \<Rightarrow> string list \<Rightarrow> (string, int) dict \<Rightarrow> exn + (string, int) dict" where
  "consumed_loop d minutes [] acc = Inr acc"
| "consumed_loop d minutes (consumable # rest) acc =
     (let consumed_after_modification = get0 (configuration d) consumable * minutes
      in case getitem (consumed_before_update d) consumable of
           Inl e \<Rightarrow> Inl e
         | Inr before \<Rightarrow>
             consumed_loop d minutes rest
               (setitem acc consumable (consumed_after_modification + before)))"

text \<open>The property \<^verbatim>\<open>ConsumptionDetails.consumed\<close>.\<close>

definition details_consumed :: "int \<Rightarrow> ConsumptionDetails \<Rightarrow> exn + (string, int) dict" where
  "details_consumed tz d =
     (case get_month_end tz d of
        Inl e \<Rightarrow> Inl e
      | Inr month_end \<Rightarrow>
          consumed_loop d (get_minutes_from_last_update d month_end)
            (remdups (keys (configuration d) @ keys (consumed_before_update d))) [])"

subsection \<open>The table of price estimates\<close>

type_synonym store = "PriceEstimate list"

text \<open>
  The key of the generic foreign key \<^verbatim>\<open>scope\<close>, the columns \<^verbatim>\<open>content_type\<close> and
  \<^verbatim>\<open>object_id\<close> as the queries and \<^verbatim>\<open>unique_together\<close> read them: none when a part of
  the key is null.
\<close>

definition scope :: "PriceEstimate \<Rightarrow> scope_ref option" where
  "scope e =
     (case content_type e of
        None \<Rightarrow> None
      | Some ct \<Rightarrow> (case object_id e of None \<Rightarrow> None | Some oid \<Rightarrow> Some (ct, oid)))"

text \<open>
  The attribute \<^verbatim>\<open>self.scope\<close>: the object the key refers to, \<^verbatim>\<open>None\<close> when a part of
  the key is null or when no such object exists (any more). The rows of the structure models
  are the parameter \<open>objects\<close>: the objects that exist.
\<close>

definition scope_object :: "(scope_ref \<Rightarrow> bool) \<Rightarrow> PriceEstimate \<Rightarrow> scope_ref option" where
  "scope_object objects e =
     (case scope e of
        None \<Rightarrow> None
      | Some sc \<Rightarrow> if objects sc then Some sc else None)"

definition is_leaf_scope :: "scope_ref \<Rightarrow> bool" where
  "is_leaf_scope sc = is_payable_model (fst sc)"

text \<open>The property \<^verbatim>\<open>is_leaf\<close>: \<^verbatim>\<open>self.scope and self.is_leaf_scope(self.scope)\<close>.\<close>

definition is_leaf :: "(scope_ref \<Rightarrow> bool) \<Rightarrow> PriceEstimate \<Rightarrow> bool" where
  "is_leaf objects e =
     (case scope_object objects e of None \<Rightarrow> False | Some sc \<Rightarrow> is_leaf_scope sc)"

text \<open>\<^verbatim>\<open>self.leafs.all()\<close>: the rows the many-to-many relation links to \<open>e\<close>.\<close>

definition leafs_all :: "store \<Rightarrow> PriceEstimate \<Rightarrow> PriceEstimate list" where
  "leafs_all s e = filter (\<lambda>l. pe_id l \<in> set (leafs e)) s"

text \<open>\<^verbatim>\<open>self.save(update_fields=['total', 'consumed'])\<close>\<close>

definition save_total_consumed :: "store \<Rightarrow> PriceEstimate \<Rightarrow> store" where
  "save_total_consumed s e =
     map (\<lambda>r. if pe_id r = pe_id e then r\<lparr>total := total e, consumed := consumed e\<rparr> else r) s"

text \<open>\<^verbatim>\<open>PriceEstimate.update_from_leaf\<close>\<close>

definition update_from_leaf :: "(scope_ref \<Rightarrow> bool) \<Rightarrow> store \<Rightarrow> PriceEstimate \<Rightarrow> store" where
  "update_from_leaf objects s e =
     (if is_leaf objects e then s
      else
        let leaf_estimates = leafs_all s e
        in save_total_consumed s
             (e\<lparr>total := sum_list (map total leaf_estimates),
                consumed := sum_list (map consumed leaf_estimates)\<rparr>))"

text \<open>The primary key of a new row.\<close>

definition new_id :: "store \<Rightarrow> nat" where
  "new_id s = Suc (fold max (map pe_id s) 0)"

text \<open>
  \<^verbatim>\<open>objects.get_or_create(object_id=.., content_type=.., month=.., year=..)\<close>, with the
  keyword \<^verbatim>\<open>is_manually_input\<close> when \<open>manual\<close> is given. The result is the table, the row
  and the flag \<^verbatim>\<open>created\<close>; a new row has the defaults of the model's fields.
\<close>

definition lookup ::
  "store \<Rightarrow> model_class \<Rightarrow> nat \<Rightarrow> int \<Rightarrow> int \<Rightarrow> bool option \<Rightarrow> PriceEstimate list" where
  "lookup s ct oid m y manual =
     filter (\<lambda>r. object_id r = Some oid \<and> content_type r = Some ct \<and> month r = m \<and> year r = y \<and>
                 (case manual of None \<Rightarrow> True | Some b \<Rightarrow> is_manually_input r = b)) s"

definition new_estimate :: "nat \<Rightarrow> model_class \<Rightarrow> nat \<Rightarrow> int \<Rightarrow> int \<Rightarrow> PriceEstimate" where
  "new_estimate i ct oid m y =
     \<lparr>pe_id = i, content_type = Some ct, object_id = Some oid, scope_customer = None,
      leafs = [], total = 0, consumed = 0, details = [], limit = - 1, month = m, year = y,
      is_manually_input = False, is_visible = True\<rparr>"

definition get_or_create ::
  "store \<Rightarrow> model_class \<Rightarrow> nat \<Rightarrow> int \<Rightarrow> int \<Rightarrow> bool option \<Rightarrow>
     exn + (store \<times> PriceEstimate \<times> bool)" where
  "get_or_create s ct oid m y manual =
     (case lookup s ct oid m y manual of
        [] \<Rightarrow> (let e = new_estimate (new_id s) ct oid m y in Inr (s @ [e], e, True))
      | [e] \<Rightarrow> Inr (s, e, False)
      | _ \<Rightarrow> Inl MultipleObjectsReturned)"

text \<open>\<^verbatim>\<open>parent_estimate.leafs.add(self)\<close>\<close>

definition leafs_add :: "store \<Rightarrow> PriceEstimate \<Rightarrow> PriceEstimate \<Rightarrow> store" where
  "leafs_add s parent e =
     map (\<lambda>r. if pe_id r = pe_id parent then r\<lparr>leafs := leafs r @ [pe_id e]\<rparr> else r) s"

text \<open>
  The body of the loop of \<^verbatim>\<open>PriceEstimate.update_ancestors\<close>, for one \<open>parent\<close> of
  \<^verbatim>\<open>self.scope.get_ancestors()\<close>.
\<close>

definition update_ancestor ::
  "(scope_ref \<Rightarrow> bool) \<Rightarrow> store \<Rightarrow> PriceEstimate \<Rightarrow> scope_ref \<Rightarrow> exn + store" where
  "update_ancestor objects s e parent =
     (case get_or_create s (fst parent) (snd parent) (month e) (year e) None of
        Inl x \<Rightarrow> Inl x
      | Inr (s1, parent_estimate, is_new) \<Rightarrow>
          if is_leaf objects e \<and> pe_id e \<notin> set (leafs parent_estimate)
          then Inr (update_from_leaf objects (leafs_add s1 parent_estimate e)
                      (parent_estimate\<lparr>leafs := leafs parent_estimate @ [pe_id e]\<rparr>))
          else Inr (update_from_leaf objects s1 parent_estimate))"

fun update_ancestors_loop ::
  "(scope_ref \<Rightarrow> bool) \<Rightarrow> store \<Rightarrow> PriceEstimate \<Rightarrow> scope_ref list \<Rightarrow> exn + store" where
  "update_ancestors_loop objects s e [] = Inr s"
| "update_ancestors_loop objects s e (parent # parents) =
     (case update_ancestor objects s e parent of
        Inl x \<Rightarrow> Inl x
      | Inr s1 \<Rightarrow> update_ancestors_loop objects s1 e parents)"

text \<open>
  \<^verbatim>\<open>PriceEstimate.update_ancestors\<close>. The method \<^verbatim>\<open>get_ancestors\<close> of the structure
  models is the parameter \<open>get_ancestors\<close>; \<^verbatim>\<open>self.scope.get_ancestors()\<close> raises
  \<^verbatim>\<open>AttributeError\<close> when \<^verbatim>\<open>self.scope\<close> is \<^verbatim>\<open>None\<close>.
\<close>

definition update_ancestors ::
  "(scope_ref \<Rightarrow> scope_ref list) \<Rightarrow> (scope_ref \<Rightarrow> bool) \<Rightarrow> store \<Rightarrow> PriceEstimate \<Rightarrow>
     exn + store" where
  "update_ancestors get_ancestors objects s e =
     (case scope_object objects e of
        None \<Rightarrow> Inl AttributeError
      | Some sc \<Rightarrow> update_ancestors_loop objects s e (get_ancestors sc))"

subsection \<open>The price of a resource\<close>

record resource =
  res_id :: nat
  res_model :: string
  app_label :: string
  created :: datetime

datatype backend_exn = ServiceBackendNotImplemented | ServiceBackendError | OtherException

text \<open>A cost tracking backend: \<^verbatim>\<open>get_monthly_cost_estimate\<close>.\<close>

type_synonym backend = "resource \<Rightarrow> backend_exn + rat"

text \<open>\<^verbatim>\<open>CostTrackingRegister._register\<close>\<close>

type_synonym register = "string \<Rightarrow> backend option"

text \<open>\<^verbatim>\<open>CostTrackingRegister.get_resource_backend\<close>\<close>

definition get_resource_backend :: "register \<Rightarrow> resource \<Rightarrow> backend_exn + backend" where
  "get_resource_backend reg r =
     (case reg (app_label r) of None \<Rightarrow> Inl ServiceBackendNotImplemented | Some b \<Rightarrow> Inr b)"

datatype log_record = LogError | LogException | LogInfo rat

record db =
  estimates :: store
  logged :: "log_record list"

text \<open>The inner function \<^verbatim>\<open>update_estimate\<close> of \<^verbatim>\<open>update_price_for_resource\<close>.\<close>

definition update_estimate ::
  "resource \<Rightarrow> int \<Rightarrow> int \<Rightarrow> rat \<Rightarrow> rat option \<Rightarrow> bool \<Rightarrow> store \<Rightarrow> exn + store" where
  "update_estimate r m y tot cons update_if_exists s =
     (case get_or_create s (ResourceModel (res_model r)) (res_id r) m y (Some False) of
        Inl x \<Rightarrow> Inl x
      | Inr (s1, estimate, is_new) \<Rightarrow>
          if update_if_exists \<or> is_new
          then Inr (save_total_consumed s1
                      (estimate\<lparr>consumed := (case cons of None \<Rightarrow> tot | Some c \<Rightarrow> c),
                                total := tot\<rparr>))
          else Inr s1)"

text \<open>The inner function \<^verbatim>\<open>prorata_cost\<close>.\<close>

definition prorata_cost :: "rat \<Rightarrow> rat \<Rightarrow> timedelta \<Rightarrow> rat" where
  "prorata_cost monthly_cost seconds_in_month work_interval =
     round2 (monthly_cost * total_seconds work_interval / seconds_in_month)"

text \<open>
  The loop that fills the months before the current one: from \<open>date\<close> back to the month
  of creation.
\<close>

function previous_months ::
  "resource \<Rightarrow> rat \<Rightarrow> datetime \<Rightarrow> store \<Rightarrow> exn + store" where
  "previous_months r monthly_cost date s =
     (if dt_month date = dt_month (created r) \<and> dt_year date = dt_year (created r) then Inr s
      else case update_estimate r (dt_month date) (dt_year date) monthly_cost None False s of
             Inl x \<Rightarrow> Inl x
           | Inr s1 \<Rightarrow>
               (case sub_month date of
                  Inl x \<Rightarrow> Inl x
                | Inr date1 \<Rightarrow> previous_months r monthly_cost date1 s1))"
  by pat_completeness auto
termination
proof (relation "measure (\<lambda>(r, c, date, s). nat (dt_year date * 12 + dt_month date))")
  show "wf (measure (\<lambda>(r, c, date, s). nat (dt_year date * 12 + dt_month date)))"
    by simp
next
  fix r :: resource and monthly_cost :: rat and date date1 :: datetime and s s1 :: store
  assume "sub_month date = Inr date1"
  then have "dt_year date1 * 12 + dt_month date1 = dt_year date * 12 + dt_month date - 1"
       and "1 \<le> dt_year date1" and "1 \<le> dt_month date1"
    by (auto simp: sub_month_def Let_def monthrange_days_def split: if_splits)
  then show "((r, monthly_cost, date1, s1), (r, monthly_cost, date, s))
               \<in> measure (\<lambda>(r, c, date, s). nat (dt_year date * 12 + dt_month date))"
    by simp
qed

text \<open>
  The local values \<^verbatim>\<open>month_start\<close>, \<^verbatim>\<open>month_end\<close> and \<^verbatim>\<open>seconds_in_month\<close> of
  \<^verbatim>\<open>update_price_for_resource\<close>, as instants and seconds, for the datetime
  \<^verbatim>\<open>resource.created\<close> and the number of days of its month.
\<close>

definition month_start :: "datetime \<Rightarrow> int" where
  "month_start c = instant (replace_month_start c)"

definition month_end :: "datetime \<Rightarrow> int \<Rightarrow> int" where
  "month_end c days_in_month = month_start c + timedelta_days days_in_month"

definition seconds_in_month :: "datetime \<Rightarrow> int \<Rightarrow> rat" where
  "seconds_in_month c days_in_month =
     total_seconds (month_end c days_in_month - month_start c)"

text \<open>
  The branch \<^verbatim>\<open>else\<close> of the \<^verbatim>\<open>try\<close> statement of \<^verbatim>\<open>update_price_for_resource\<close>.
  Adding the days of December 9999 to a datetime overflows.
\<close>

definition update_price :: "datetime \<Rightarrow> resource \<Rightarrow> bool \<Rightarrow> rat \<Rightarrow> store \<Rightarrow> exn + store" where
  "update_price now r back_propagate_price monthly_cost s =
     (case monthrange_days (dt_year (created r)) (dt_month (created r)) of
        Inl x \<Rightarrow> Inl x
      | Inr days_in_month \<Rightarrow>
          if dt_year (created r) = 9999 \<and> dt_month (created r) = 12 then Inl OverflowError
          else
            let prorata = prorata_cost monthly_cost (seconds_in_month (created r) days_in_month);
                first_month = prorata (month_end (created r) days_in_month - instant (created r))
            in
              if dt_month (created r) = dt_month now \<and> dt_year (created r) = dt_year now
              then update_estimate r (dt_month now) (dt_year now) first_month
                     (Some (prorata (instant now - instant (created r)))) True s
              else
                case update_estimate r (dt_month now) (dt_year now) monthly_cost
                       (Some (prorata (instant now - instant (replace_month_start now))))
                       True s of
                  Inl x \<Rightarrow> Inl x
                | Inr s1 \<Rightarrow>
                    if back_propagate_price
                    then
                      case update_estimate r (dt_month (created r)) (dt_year (created r))
                             first_month None False s1 of
                        Inl x \<Rightarrow> Inl x
                      | Inr s2 \<Rightarrow>
                          (case sub_month now of
                             Inl x \<Rightarrow> Inl x
                           | Inr date \<Rightarrow> previous_months r monthly_cost date s2)
                    else Inr s1)"

text \<open>\<^verbatim>\<open>PriceEstimate.update_price_for_resource\<close>, with \<^verbatim>\<open>timezone.now()\<close> as \<open>now\<close>.\<close>

definition update_price_for_resource ::
  "register \<Rightarrow> datetime \<Rightarrow> resource \<Rightarrow> bool \<Rightarrow> db \<Rightarrow> exn + db" where
  "update_price_for_resource reg now r back_propagate_price d =
     (case (case get_resource_backend reg r of
              Inl x \<Rightarrow> Inl x
            | Inr cost_tracking_backend \<Rightarrow> cost_tracking_backend r) of
        Inl ServiceBackendNotImplemented \<Rightarrow> Inr d
      | Inl ServiceBackendError \<Rightarrow> Inr (d\<lparr>logged := logged d @ [LogError]\<rparr>)
      | Inl OtherException \<Rightarrow> Inr (d\<lparr>logged := logged d @ [LogException]\<rparr>)
      | Inr monthly_cost \<Rightarrow>
          (case update_price now r back_propagate_price monthly_cost (estimates d) of
             Inl x \<Rightarrow> Inl x
           | Inr s \<Rightarrow> Inr \<lparr>estimates = s, logged = logged d @ [LogInfo monthly_cost]\<rparr>))"

subsection \<open>Constraints of the table\<close>

text \<open>
  The primary key, and \<^verbatim>\<open>Meta.unique_together\<close> of \<^verbatim>\<open>PriceEstimate\<close>: the rows with a
  scope differ in \<^verbatim>\<open>(content_type, object_id, month, year, is_manually_input)\<close>.
\<close>

definition unique_key :: "PriceEstimate \<Rightarrow> scope_ref option \<times> int \<times> int \<times> bool" where
  "unique_key r = (scope r, month r, year r, is_manually_input r)"

definition unique_together :: "store \<Rightarrow> bool" where
  "unique_together s = distinct (map unique_key (filter (\<lambda>r. scope r \<noteq> None) s))"

definition primary_key :: "store \<Rightarrow> bool" where
  "primary_key s = distinct (map pe_id s)"

text \<open>The many-to-many relation \<^verbatim>\<open>leafs\<close> links rows of the table only.\<close>

definition leafs_exist :: "store \<Rightarrow> bool" where
  "leafs_exist s = list_all (\<lambda>r. list_all (\<lambda>i. i \<in> set (map pe_id s)) (leafs r)) s"

text \<open>The relation \<^verbatim>\<open>leafs\<close> links estimates of resources only.\<close>

definition leafs_are_leaf :: "(scope_ref \<Rightarrow> bool) \<Rightarrow> store \<Rightarrow> bool" where
  "leafs_are_leaf objects s = list_all (\<lambda>r. list_all (is_leaf objects) (leafs_all s r)) s"

text \<open>
  The equation of an aggregate: \<^verbatim>\<open>total\<close> and \<^verbatim>\<open>consumed\<close> are the sums over the linked
  leaf estimates.
\<close>

definition sums_leafs :: "store \<Rightarrow> PriceEstimate \<Rightarrow> bool" where
  "sums_leafs s p =
     (total p = sum_list (map total (leafs_all s p)) \<and>
      consumed p = sum_list (map consumed (leafs_all s p)))"


subsection \<open>Manual estimates\<close>

definition same_period :: "scope_ref \<Rightarrow> int \<Rightarrow> int \<Rightarrow> PriceEstimate \<Rightarrow> bool" where
  "same_period sc m y r = (scope r = Some sc \<and> month r = m \<and> year r = y)"

definition visible_estimates :: "store \<Rightarrow> scope_ref \<Rightarrow> int \<Rightarrow> int \<Rightarrow> PriceEstimate list" where
  "visible_estimates s sc m y = filter (\<lambda>r. same_period sc m y r \<and> is_visible r) s"

text \<open>
  Modelled from the spec: the creation of a manual estimate by a user (the view, the
  serializer and the signal handlers of the application are not among the sources). The
  spec: a manual estimate is created explicitly by a user action and is visible; an
  estimate is unique per (scope, month, year, is_manually_input); creating a manual
  estimate for a (scope, month, year) that already has an automatic one sets the automatic
  one's \<^verbatim>\<open>is_visible\<close> to false.
\<close>

definition create_manual_estimate ::
  "store \<Rightarrow> scope_ref \<Rightarrow> int \<Rightarrow> int \<Rightarrow> rat \<Rightarrow> exn + store" where
  "create_manual_estimate s sc m y tot =
     (if list_ex (\<lambda>r. same_period sc m y r \<and> is_manually_input r) s then Inl IntegrityError
      else Inr (map (\<lambda>r. if same_period sc m y r \<and> \<not> is_manually_input r
                          then r\<lparr>is_visible := False\<rparr> else r) s
                @ [(new_estimate (new_id s) (fst sc) (snd sc) m y)
                     \<lparr>total := tot, is_manually_input := True\<rparr>]))"

text \<open>
  Modelled from the spec: the deletion of an estimate by a user (the view and the signal
  handlers of the application are not among the sources). The spec: an automatic estimate
  is read-only to external callers; deleting a manual estimate sets the \<^verbatim>\<open>is_visible\<close> of
  the automatic estimate of the same (scope, month, year) to true, if there is one.
\<close>

definition delete_estimate :: "store \<Rightarrow> nat \<Rightarrow> exn + store" where
  "delete_estimate s i =
     (case filter (\<lambda>r. pe_id r = i) s of
        [] \<Rightarrow> Inl DoesNotExist
      | e # _ \<Rightarrow>
          if \<not> is_manually_input e then Inl MethodNotAllowed
          else Inr (map (\<lambda>r. if scope r \<noteq> None \<and> scope r = scope e \<and> month r = month e \<and>
                                 year r = year e \<and> \<not> is_manually_input r
                              then r\<lparr>is_visible := True\<rparr> else r)
                      (filter (\<lambda>r. pe_id r \<noteq> i) s)))"

subsection \<open>Months of a resource\<close>





subsection \<open>Ancestors of an estimate\<close>

text \<open>
  The rows \<^verbatim>\<open>update_ancestors\<close> looks up for a parent: the estimates of the parent for the
  month and the year of the estimate \<open>e\<close>.
\<close>

definition matches_parent :: "PriceEstimate \<Rightarrow> scope_ref \<Rightarrow> PriceEstimate \<Rightarrow> bool" where
  "matches_parent e parent p =
     (object_id p = Some (snd parent) \<and> content_type p = Some (fst parent) \<and>
      month p = month e \<and> year p = year e)"

text \<open>The table with the row \<open>old\<close> rewritten to \<open>new\<close>.\<close>

definition replace_row :: "PriceEstimate \<Rightarrow> PriceEstimate \<Rightarrow> store \<Rightarrow> store" where
  "replace_row old new s = map (\<lambda>r. if r = old then new else r) s"

text \<open>The constraints of the table and of the relation \<^verbatim>\<open>leafs\<close> together.\<close>

definition links_ok :: "(scope_ref \<Rightarrow> bool) \<Rightarrow> store \<Rightarrow> bool" where
  "links_ok objects s = (primary_key s \<and> leafs_exist s \<and> leafs_are_leaf objects s)"

text \<open>The table has a row with the primary key of \<open>e\<close>, a leaf when \<open>e\<close> is one.\<close>

definition present :: "(scope_ref \<Rightarrow> bool) \<Rightarrow> store \<Rightarrow> PriceEstimate \<Rightarrow> bool" where
  "present objects s e =
     list_ex (\<lambda>l. pe_id l = pe_id e \<and> is_leaf objects l = is_leaf objects e) s"

subsection \<open>Example data\<close>

text \<open>
  The states of the examples: a resource of August 2016 with 2048 MB of RAM, as in the
  test of the handlers, and variants of it.
\<close>

definition estimate_aug_2016 :: PriceEstimate where
  "estimate_aug_2016 =
     \<lparr>pe_id = 1, content_type = Some (ResourceModel ''TestNewInstance''), object_id = Some 1,
      scope_customer = Some 1, leafs = [], total = 0, consumed = 0, details = [], limit = - 1,
      month = 8, year = 2016, is_manually_input = False, is_visible = True\<rparr>"

definition at_2016_08_08 :: "int \<Rightarrow> int \<Rightarrow> datetime" where
  "at_2016_08_08 h m =
     \<lparr>dt_year = 2016, dt_month = 8, dt_day = 8, dt_hour = h, dt_minute = m, dt_second = 0,
      dt_microsecond = 0\<rparr>"

definition details_ram_2048 :: ConsumptionDetails where
  "details_ram_2048 =
     \<lparr>price_estimate = estimate_aug_2016, configuration = [(''ram'', 2048)],
      last_update_time = at_2016_08_08 11 0, consumed_before_update = []\<rparr>"

definition estimate_aug_2015 :: PriceEstimate where
  "estimate_aug_2015 = estimate_aug_2016\<lparr>year := 2015\<rparr>"

definition at_2015_08_08 :: "int \<Rightarrow> int \<Rightarrow> datetime" where
  "at_2015_08_08 h m = (at_2016_08_08 h m)\<lparr>dt_year := 2015\<rparr>"

definition details_last_year :: ConsumptionDetails where
  "details_last_year =
     \<lparr>price_estimate = estimate_aug_2015, configuration = [(''ram'', 2048)],
      last_update_time = at_2015_08_08 11 0, consumed_before_update = []\<rparr>"

definition details_fresh :: ConsumptionDetails where
  "details_fresh =
     \<lparr>price_estimate = estimate_aug_2016, configuration = [],
      last_update_time = at_2016_08_08 11 0, consumed_before_update = []\<rparr>"

definition at_2016 :: "int \<Rightarrow> int \<Rightarrow> int \<Rightarrow> datetime" where
  "at_2016 m d h =
     \<lparr>dt_year = 2016, dt_month = m, dt_day = d, dt_hour = h, dt_minute = 0, dt_second = 0,
      dt_microsecond = 0\<rparr>"

definition test_instance :: "datetime \<Rightarrow> resource" where
  "test_instance c = \<lparr>res_id = 1, res_model = ''TestInstance'', app_label = ''test'', created = c\<rparr>"

definition test_register :: "(backend_exn + rat) \<Rightarrow> register" where
  "test_register outcome = (\<lambda>label. if label = ''test'' then Some (\<lambda>r. outcome) else None)"


definition june_estimate :: PriceEstimate where
  "june_estimate =
     (new_estimate 1 (ResourceModel ''TestInstance'') 1 6 2016)\<lparr>total := 77, consumed := 77\<rparr>"

definition june_db :: db where
  "june_db = \<lparr>estimates = [june_estimate], logged = []\<rparr>"

text \<open>
  The estimates of July 2015: two instances of one service project link, the second one
  already linked to the automatic estimate of the link; a manual estimate of the link.
\<close>

definition instance_estimate :: PriceEstimate where
  "instance_estimate =
     (new_estimate 1 (ResourceModel ''TestInstance'') 9 7 2015)\<lparr>total := 30, consumed := 10\<rparr>"

definition other_instance_estimate :: PriceEstimate where
  "other_instance_estimate =
     (new_estimate 2 (ResourceModel ''TestInstance'') 8 7 2015)\<lparr>total := 12, consumed := 2\<rparr>"

definition link_estimate :: PriceEstimate where
  "link_estimate =
     (new_estimate 3 (ServiceProjectLinkModel ''TestServiceProjectLink'') 5 7 2015)
       \<lparr>leafs := [2], total := 12, consumed := 2\<rparr>"

definition manual_link_estimate :: PriceEstimate where
  "manual_link_estimate =
     (new_estimate 4 (ServiceProjectLinkModel ''TestServiceProjectLink'') 5 7 2015)
       \<lparr>total := 100, consumed := 100, is_manually_input := True\<rparr>"

definition test_ancestors :: "scope_ref \<Rightarrow> scope_ref list" where
  "test_ancestors sc =
     (if fst sc = ResourceModel ''TestInstance''
      then [(ServiceProjectLinkModel ''TestServiceProjectLink'', 5), (Project, 2), (Customer, 1)]
      else [])"

text \<open>The objects of the structure that exist in the examples.\<close>

definition test_objects :: "scope_ref \<Rightarrow> bool" where
  "test_objects sc =
     (sc \<in> set [(ResourceModel ''TestInstance'', 9), (ResourceModel ''TestInstance'', 8),
                 (ServiceProjectLinkModel ''TestServiceProjectLink'', 5), (Project, 2),
                 (Customer, 1)])"

definition july_table :: store where
  "july_table = [instance_estimate, other_instance_estimate, link_estimate]"

definition july_table_updated :: store where
  "july_table_updated =
     [instance_estimate, other_instance_estimate,
      link_estimate\<lparr>leafs := [2, 1], total := 42, consumed := 12\<rparr>,
      (new_estimate 4 Project 2 7 2015)\<lparr>leafs := [1], total := 30, consumed := 10\<rparr>,
      (new_estimate 5 Customer 1 7 2015)\<lparr>leafs := [1], total := 30, consumed := 10\<rparr>]"

text \<open>
  The table \<open>july_table_updated\<close> after a user has created a manual estimate with the total
  100 for the service project link and the estimate of the first instance has been saved
  with the total 50.
\<close>

definition july_table_manual :: store where
  "july_table_manual =
     [instance_estimate\<lparr>total := 50\<rparr>, other_instance_estimate,
      link_estimate\<lparr>leafs := [2, 1], total := 42, consumed := 12, is_visible := False\<rparr>,
      (new_estimate 4 Project 2 7 2015)\<lparr>leafs := [1], total := 30, consumed := 10\<rparr>,
      (new_estimate 5 Customer 1 7 2015)\<lparr>leafs := [1], total := 30, consumed := 10\<rparr>,
      (new_estimate 6 (ServiceProjectLinkModel ''TestServiceProjectLink'') 5 7 2015)
        \<lparr>total := 100, is_manually_input := True\<rparr>]"

definition test_link :: scope_ref where
  "test_link = (ServiceProjectLinkModel ''TestServiceProjectLink'', 5)"

section \<open>Properties\<close>

subsection \<open>Dictionaries\<close>

lemma dict_eq_iff:
  "distinct (keys a) \<Longrightarrow> distinct (keys b) \<Longrightarrow> dict_eq a b \<longleftrightarrow> map_of a = map_of b"
proof
  assume da: "distinct (keys a)" and db: "distinct (keys b)" and e: "dict_eq a b"
  show "map_of a = map_of b"
  proof
    fix k
    show "map_of a k = map_of b k"
    proof (cases "map_of a k")
      case None
      show ?thesis
      proof (cases "map_of b k")
        case None' : None
        with None show ?thesis by simp
      next
        case (Some v)
        then have "(k, v) \<in> set b" by (rule map_of_SomeD)
        with e have "map_of a k = Some v" by (auto simp: dict_eq_def list_all_iff)
        with None show ?thesis by simp
      qed
    next
      case (Some v)
      then have "(k, v) \<in> set a" by (rule map_of_SomeD)
      with e have "map_of b k = Some v" by (auto simp: dict_eq_def list_all_iff)
      with Some show ?thesis by simp
    qed
  qed
next
  assume da: "distinct (keys a)" and db: "distinct (keys b)" and e: "map_of a = map_of b"
  have "\<And>k v. (k, v) \<in> set a \<Longrightarrow> map_of a k = Some v"
    using da by (simp add: keys_def)
  moreover have "\<And>k v. (k, v) \<in> set b \<Longrightarrow> map_of b k = Some v"
    using db by (simp add: keys_def)
  ultimately show "dict_eq a b"
    using e by (auto simp: dict_eq_def list_all_iff)
qed

lemma map_of_setitem:
  "map_of (setitem d k v) k' = (if k' = k then Some v else map_of d k')"
  by (simp add: setitem_def update_conv')

lemma keys_setitem: "set (keys (setitem d k v)) = insert k (set (keys d))"
  by (simp add: setitem_def keys_def dom_update)

lemma distinct_setitem: "distinct (keys d) \<Longrightarrow> distinct (keys (setitem d k v))"
  by (simp add: setitem_def keys_def distinct_update)

lemma get0_setitem: "get0 (setitem d k v) k' = (if k' = k then v else get0 d k')"
  by (simp add: get0_def map_of_setitem)

lemma accumulate_map_of:
  "distinct (keys items) \<Longrightarrow>
   map_of (accumulate n items cbu) k =
     (case map_of items k of None \<Rightarrow> map_of cbu k
      | Some usage \<Rightarrow> Some (get0 cbu k + usage * n))"
proof (induction items arbitrary: cbu)
  case Nil
  then show ?case by simp
next
  case (Cons it items)
  obtain c u where it: "it = (c, u)" by (cases it)
  from Cons.prems it have d: "distinct (keys items)" and nin: "c \<notin> set (keys items)"
    by (simp_all add: keys_def)
  from nin have none: "map_of items c = None"
    by (simp add: keys_def map_of_eq_None_iff)
  show ?case
    using Cons.IH[OF d] none
    by (auto simp: it map_of_setitem get0_setitem split: option.splits)
qed

subsection \<open>Consumption details\<close>

lemma consumed_loop_KeyError:
  "\<exists>k \<in> set ks. k \<notin> set (keys (consumed_before_update d)) \<Longrightarrow>
   consumed_loop d n ks acc = Inl KeyError"
proof (induction ks arbitrary: acc)
  case Nil
  then show ?case by simp
next
  case (Cons k ks)
  show ?case
  proof (cases "map_of (consumed_before_update d) k")
    case None
    then show ?thesis by (simp add: getitem_def)
  next
    case (Some v)
    then have "k \<in> set (keys (consumed_before_update d))"
      by (auto simp: keys_def dest: map_of_SomeD intro: rev_image_eqI)
    with Cons.prems have "\<exists>k \<in> set ks. k \<notin> set (keys (consumed_before_update d))"
      by auto
    from Cons.IH[OF this] Some show ?thesis by (simp add: getitem_def)
  qed
qed

text \<open>
  C4. The claim holds for an update the method accepts: \<^verbatim>\<open>update_configuration\<close>
  with a configuration equal to the current one changes nothing; with a different one,
  in the month of the attached estimate, it adds to \<^verbatim>\<open>consumed_before_update[k]\<close>, for
  every consumable \<open>k\<close> of the old configuration, the old usage times the whole minutes
  since \<^verbatim>\<open>last_update_time\<close> (truncated toward zero, a missing entry counting as 0),
  leaves the other entries as they are, replaces the configuration and sets
  \<^verbatim>\<open>last_update_time\<close> to now.
\<close>

theorem update_configuration_accrues:
  assumes "distinct (keys new_configuration)" and "distinct (keys (configuration d))"
  shows "(map_of new_configuration = map_of (configuration d) \<longrightarrow>
            update_configuration now d new_configuration = Inr d) \<and>
         (map_of new_configuration \<noteq> map_of (configuration d) \<and>
          dt_month now = month (price_estimate d) \<longrightarrow>
            (\<exists>d'. update_configuration now d new_configuration = Inr d' \<and>
                  configuration d' = new_configuration \<and>
                  last_update_time d' = now \<and>
                  price_estimate d' = price_estimate d \<and>
                  (\<forall>k. map_of (consumed_before_update d') k =
                         (case map_of (configuration d) k of
                            None \<Rightarrow> map_of (consumed_before_update d) k
                          | Some usage \<Rightarrow>
                              Some (get0 (consumed_before_update d) k +
                                    usage * py_int (total_seconds
                                      (instant now - instant (last_update_time d)) / 60))))))"
  using assms
  by (simp add: update_configuration_def dict_eq_iff accumulate_map_of
        get_minutes_from_last_update_def)

lemma minutes_example:
  "py_int (total_seconds (instant (at_2016_08_08 12 0) - instant (at_2016_08_08 11 0)) / 60) = 60"
  by code_simp

text \<open>The configuration \<^verbatim>\<open>{ram: 2048}\<close>, held for 60 minutes: 2048 * 60.\<close>

theorem update_configuration_accrues_witness:
  "\<exists>d'. update_configuration (at_2016_08_08 12 0) details_ram_2048 [(''ram'', 1024)] = Inr d' \<and>
        configuration d' = [(''ram'', 1024)] \<and>
        last_update_time d' = at_2016_08_08 12 0 \<and>
        map_of (consumed_before_update d') ''ram'' = Some (2048 * 60)"
proof -
  have h1: "distinct (keys [(''ram'', 1024::int)])" by (simp add: keys_def)
  have h2: "distinct (keys (configuration details_ram_2048))"
    by (simp add: keys_def details_ram_2048_def)
  have h3: "map_of [(''ram'', 1024::int)] \<noteq> map_of (configuration details_ram_2048)"
    by (auto simp: details_ram_2048_def fun_eq_iff)
  have h4: "dt_month (at_2016_08_08 12 0) = month (price_estimate details_ram_2048)"
    by (simp add: at_2016_08_08_def details_ram_2048_def estimate_aug_2016_def)
  from update_configuration_accrues [OF h1 h2, of "at_2016_08_08 12 0"] h3 h4
  obtain d' where
    r: "update_configuration (at_2016_08_08 12 0) details_ram_2048 [(''ram'', 1024)] = Inr d'"
    and c: "configuration d' = [(''ram'', 1024)]"
    and t: "last_update_time d' = at_2016_08_08 12 0"
    and k: "\<forall>k. map_of (consumed_before_update d') k =
              (case map_of (configuration details_ram_2048) k of
                 None \<Rightarrow> map_of (consumed_before_update details_ram_2048) k
               | Some usage \<Rightarrow>
                   Some (get0 (consumed_before_update details_ram_2048) k +
                         usage * py_int (total_seconds
                           (instant (at_2016_08_08 12 0) -
                            instant (last_update_time details_ram_2048)) / 60)))"
    by blast
  from k have "map_of (consumed_before_update d') ''ram'' = Some (2048 * 60)"
    using minutes_example by (simp add: details_ram_2048_def get0_def)
  with r c t show ?thesis by blast
qed

text \<open>
  C4, the claim as stated fails: a configuration held for 60 minutes across the end of the
  month of its estimate is not accrued, the update is refused.
\<close>

theorem update_configuration_month_boundary:
  "update_configuration
     \<lparr>dt_year = 2016, dt_month = 9, dt_day = 1, dt_hour = 0, dt_minute = 30, dt_second = 0,
      dt_microsecond = 0\<rparr>
     (details_ram_2048\<lparr>last_update_time :=
        \<lparr>dt_year = 2016, dt_month = 8, dt_day = 31, dt_hour = 23, dt_minute = 30,
         dt_second = 0, dt_microsecond = 0\<rparr>\<rparr>)
     [(''ram'', 1024)] = Inl ConsumptionDetailUpdateError"
  by (simp add: update_configuration_def details_ram_2048_def dict_eq_def estimate_aug_2016_def)

lemma minutes_year: "get_minutes_from_last_update details_last_year (instant (at_2016_08_08 11 0)) = 527040"
  by code_simp

text \<open>
  C5 (the code departs from the statement). The guard of \<^verbatim>\<open>update_configuration\<close> compares
  the month only: for an estimate of August 2015 and a call in August 2016 the update is
  accepted and a year of minutes is accrued, where the claim has it refused.
\<close>

theorem update_configuration_other_year_accepted:
  "update_configuration (at_2016_08_08 11 0) details_last_year [(''ram'', 1024)] =
     Inr \<lparr>price_estimate = estimate_aug_2015, configuration = [(''ram'', 1024)],
          last_update_time = at_2016_08_08 11 0,
          consumed_before_update = [(''ram'', 2048 * 527040)]\<rparr> \<and>
   (month estimate_aug_2015, year estimate_aug_2015) \<noteq>
     (dt_month (at_2016_08_08 11 0), dt_year (at_2016_08_08 11 0))"
proof -
  have "\<not> dict_eq [(''ram'', 1024::int)] (configuration details_last_year)"
    by (simp add: dict_eq_def details_last_year_def)
  moreover have "dt_month (at_2016_08_08 11 0) = month (price_estimate details_last_year)"
    by (simp add: at_2016_08_08_def details_last_year_def estimate_aug_2015_def
          estimate_aug_2016_def)
  ultimately show ?thesis
    using minutes_year
    by (simp add: update_configuration_def)
       (simp add: details_last_year_def setitem_def get0_def estimate_aug_2015_def
          estimate_aug_2016_def at_2016_08_08_def)
qed

text \<open>
  C10. When the configuration has a consumable that \<^verbatim>\<open>consumed_before_update\<close>
  lacks, the property \<^verbatim>\<open>consumed\<close> raises \<^verbatim>\<open>KeyError\<close>; such a state is reached by the
  first \<^verbatim>\<open>update_configuration\<close> on details with an empty configuration and an empty
  \<^verbatim>\<open>consumed_before_update\<close>.
\<close>

theorem consumed_missing_key:
  "(1 \<le> month (price_estimate d) \<and> month (price_estimate d) \<le> 12 \<and>
    1 \<le> year (price_estimate d) \<and> year (price_estimate d) \<le> 9999 \<and>
    k \<in> set (keys (configuration d)) \<and> k \<notin> set (keys (consumed_before_update d)) \<longrightarrow>
      details_consumed tz d = Inl KeyError) \<and>
   (1 \<le> month (price_estimate d) \<and> month (price_estimate d) \<le> 12 \<and>
    1 \<le> year (price_estimate d) \<and> year (price_estimate d) \<le> 9999 \<and>
    configuration d = [] \<and> consumed_before_update d = [] \<and> new_configuration \<noteq> [] \<and>
    dt_month now = month (price_estimate d) \<longrightarrow>
      (\<exists>d'. update_configuration now d new_configuration = Inr d' \<and>
            details_consumed tz d' = Inl KeyError))"
proof (intro conjI impI)
  assume a: "1 \<le> month (price_estimate d) \<and> month (price_estimate d) \<le> 12 \<and>
    1 \<le> year (price_estimate d) \<and> year (price_estimate d) \<le> 9999 \<and>
    k \<in> set (keys (configuration d)) \<and> k \<notin> set (keys (consumed_before_update d))"
  then have "\<exists>k \<in> set (remdups (keys (configuration d) @ keys (consumed_before_update d))).
               k \<notin> set (keys (consumed_before_update d))"
    by auto
  from consumed_loop_KeyError[OF this] a show "details_consumed tz d = Inl KeyError"
    by (simp add: details_consumed_def get_month_end_def monthrange_days_def Let_def)
next
  assume a: "1 \<le> month (price_estimate d) \<and> month (price_estimate d) \<le> 12 \<and>
    1 \<le> year (price_estimate d) \<and> year (price_estimate d) \<le> 9999 \<and>
    configuration d = [] \<and> consumed_before_update d = [] \<and> new_configuration \<noteq> [] \<and>
    dt_month now = month (price_estimate d)"
  let ?d' = "d\<lparr>consumed_before_update := [], configuration := new_configuration,
                last_update_time := now\<rparr>"
  from a have neq: "\<not> dict_eq new_configuration (configuration d)"
    by (cases new_configuration) (auto simp: dict_eq_def)
  with a have upd: "update_configuration now d new_configuration = Inr ?d'"
    by (simp add: update_configuration_def)
  from a obtain k where "k \<in> set (keys new_configuration)"
    by (cases new_configuration) (auto simp: keys_def)
  then have "\<exists>k \<in> set (remdups (keys (configuration ?d') @ keys (consumed_before_update ?d'))).
               k \<notin> set (keys (consumed_before_update ?d'))"
    by (auto simp: keys_def)
  from consumed_loop_KeyError[OF this] a have "details_consumed tz ?d' = Inl KeyError"
    by (simp add: details_consumed_def get_month_end_def monthrange_days_def Let_def)
  with upd show "\<exists>d'. update_configuration now d new_configuration = Inr d' \<and>
            details_consumed tz d' = Inl KeyError"
    by blast
qed

theorem consumed_missing_key_witness:
  "\<exists>d'. update_configuration (at_2016_08_08 11 0) details_fresh [(''ram'', 2048)] = Inr d' \<and>
        details_consumed 0 d' = Inl KeyError"
  using consumed_missing_key [of details_fresh "''ram''" 0 "[(''ram'', 2048)]" "at_2016_08_08 11 0"]
  by (simp add: details_fresh_def estimate_aug_2016_def at_2016_08_08_def)

subsection \<open>The table of estimates\<close>

lemma fold_max_ge: "(a::nat) \<le> fold max xs a"
  by (induction xs arbitrary: a) (auto intro: order_trans [OF max.cobounded2])

lemma fold_max_mem: "x \<in> set xs \<Longrightarrow> (x::nat) \<le> fold max xs a"
proof (induction xs arbitrary: a)
  case Nil
  then show ?case by simp
next
  case (Cons y ys)
  show ?case
  proof (cases "x = y")
    case True
    have "max y a \<le> fold max ys (max y a)" by (rule fold_max_ge)
    with True show ?thesis by simp
  next
    case False
    with Cons.prems have "x \<in> set ys" by simp
    from Cons.IH[OF this] show ?thesis by simp
  qed
qed

lemma new_id_fresh: "e \<in> set s \<Longrightarrow> pe_id e < new_id s"
  using fold_max_mem [of "pe_id e" "map pe_id s" 0] by (simp add: new_id_def)

lemma new_id_neq: "e \<in> set s \<Longrightarrow> pe_id e \<noteq> new_id s"
  using new_id_fresh [of e s] by simp







lemma scope_amounts [simp]: "scope (r\<lparr>total := t, consumed := c\<rparr>) = scope r"
  by (simp add: scope_def split: option.split)

lemma unique_key_amounts [simp]: "unique_key (r\<lparr>total := t, consumed := c\<rparr>) = unique_key r"
  by (simp add: unique_key_def)




















subsection \<open>The months before the current one\<close>




declare previous_months.simps [simp del]





subsection \<open>Proration\<close>






text \<open>
  C6. Without a registered backend, or when the backend raises
  \<^verbatim>\<open>ServiceBackendNotImplemented\<close>, \<^verbatim>\<open>update_price_for_resource\<close> returns without any
  change; when the backend raises \<^verbatim>\<open>ServiceBackendError\<close> (or any other exception) it
  returns without raising, the estimates unchanged and one record logged.
\<close>

theorem backend_failure_is_no_error:
  "(reg (app_label r) = None \<longrightarrow>
      update_price_for_resource reg now r back_propagate_price d = Inr d) \<and>
   (reg (app_label r) = Some b \<and> b r = Inl ServiceBackendNotImplemented \<longrightarrow>
      update_price_for_resource reg now r back_propagate_price d = Inr d) \<and>
   (reg (app_label r) = Some b \<and> b r = Inl ServiceBackendError \<longrightarrow>
      update_price_for_resource reg now r back_propagate_price d =
        Inr (d\<lparr>logged := logged d @ [LogError]\<rparr>)) \<and>
   (reg (app_label r) = Some b \<and> b r = Inl OtherException \<longrightarrow>
      update_price_for_resource reg now r back_propagate_price d =
        Inr (d\<lparr>logged := logged d @ [LogException]\<rparr>))"
  by (simp add: update_price_for_resource_def get_resource_backend_def)

theorem backend_failure_is_no_error_witness:
  "update_price_for_resource (test_register (Inl ServiceBackendError)) (at_2016 8 8 11)
     (test_instance (at_2016 6 15 0)) True june_db =
     Inr \<lparr>estimates = [june_estimate], logged = [LogError]\<rparr> \<and>
   update_price_for_resource (test_register (Inl ServiceBackendNotImplemented)) (at_2016 8 8 11)
     (test_instance (at_2016 6 15 0)) True june_db = Inr june_db \<and>
   update_price_for_resource (\<lambda>label. None) (at_2016 8 8 11)
     (test_instance (at_2016 6 15 0)) True june_db = Inr june_db"
  using backend_failure_is_no_error [where reg = "test_register (Inl ServiceBackendError)"
          and r = "test_instance (at_2016 6 15 0)" and b = "\<lambda>r. Inl ServiceBackendError"
          and now = "at_2016 8 8 11" and back_propagate_price = True and d = june_db]
        backend_failure_is_no_error [where reg = "test_register (Inl ServiceBackendNotImplemented)"
          and r = "test_instance (at_2016 6 15 0)"
          and b = "\<lambda>r. Inl ServiceBackendNotImplemented"
          and now = "at_2016 8 8 11" and back_propagate_price = True and d = june_db]
        backend_failure_is_no_error [where reg = "\<lambda>label. None"
          and r = "test_instance (at_2016 6 15 0)"
          and now = "at_2016 8 8 11" and back_propagate_price = True and d = june_db]
  by (simp add: test_register_def test_instance_def june_db_def)

subsection \<open>The estimates of a resource\<close>











subsection \<open>Propagation to the ancestors\<close>

lemma leafs_exist_iff:
  "leafs_exist s \<longleftrightarrow> (\<forall>r \<in> set s. set (leafs r) \<subseteq> pe_id ` set s)"
  by (auto simp: leafs_exist_def list_all_iff)

lemma leafs_are_leaf_iff:
  "leafs_are_leaf objs s \<longleftrightarrow> (\<forall>r \<in> set s. \<forall>l \<in> set s. pe_id l \<in> set (leafs r) \<longrightarrow> is_leaf objs l)"
  by (auto simp: leafs_are_leaf_def list_all_iff leafs_all_def)

lemma lookup_matches:
  "lookup s (fst parent) (snd parent) (month e) (year e) None = filter (matches_parent e parent) s"
  unfolding lookup_def by (rule filter_cong) (auto simp: matches_parent_def)

lemma same_id_same_row:
  "primary_key s \<Longrightarrow> a \<in> set s \<Longrightarrow> b \<in> set s \<Longrightarrow> pe_id a = pe_id b \<Longrightarrow> a = b"
  by (auto simp: primary_key_def distinct_map inj_on_def)

lemma by_id_replace:
  assumes "primary_key s" and "old \<in> set s"
  shows "map (\<lambda>r. if pe_id r = pe_id old then f r else r) s = replace_row old (f old) s"
  unfolding replace_row_def
  by (rule map_cong) (use assms same_id_same_row in auto)

text \<open>Rows selected by their ids, before and after a row is rewritten.\<close>

lemma filter_ids_replace:
  assumes "pe_id new = pe_id old"
  shows "filter (\<lambda>l. pe_id l \<in> A) (replace_row old new s) =
         replace_row old new (filter (\<lambda>l. pe_id l \<in> A) s)"
  unfolding replace_row_def using assms by (induction s) auto

lemma replace_row_absent: "old \<notin> set s \<Longrightarrow> replace_row old new s = s"
  unfolding replace_row_def by (rule map_idI) auto

lemma map_total_replace:
  "total new = total old \<Longrightarrow> map total (replace_row old new s) = map total s"
  by (induction s) (auto simp: replace_row_def)

lemma map_consumed_replace:
  "consumed new = consumed old \<Longrightarrow> map consumed (replace_row old new s) = map consumed s"
  by (induction s) (auto simp: replace_row_def)

lemma set_replace_row:
  "old \<in> set s \<Longrightarrow> set (replace_row old new s) = insert new (set s - {old})"
  by (auto simp: replace_row_def)

lemma map_pe_id_replace:
  "pe_id new = pe_id old \<Longrightarrow> map pe_id (replace_row old new s) = map pe_id s"
  by (induction s) (auto simp: replace_row_def)

lemma scope_leafs [simp]: "scope (r\<lparr>leafs := L\<rparr>) = scope r"
  by (simp add: scope_def split: option.split)

lemma scope_object_leafs [simp]: "scope_object objs (r\<lparr>leafs := L\<rparr>) = scope_object objs r"
  unfolding scope_object_def scope_leafs by (rule refl)

lemma scope_object_amounts [simp]:
  "scope_object objs (r\<lparr>total := T, consumed := C\<rparr>) = scope_object objs r"
  unfolding scope_object_def scope_amounts by (rule refl)

lemma is_leaf_rewritten [simp]:
  "is_leaf objs (r\<lparr>leafs := L, total := T, consumed := C\<rparr>) = is_leaf objs r"
  unfolding is_leaf_def scope_object_amounts scope_object_leafs by (rule refl)

lemma matches_parent_rewritten [simp]:
  "matches_parent e parent (r\<lparr>leafs := L, total := T, consumed := C\<rparr>) = matches_parent e parent r"
  by (simp add: matches_parent_def)

lemma leaf_amounts_replace:
  assumes "pe_id new = pe_id old"
      and "pe_id old \<in> set (leafs q) \<Longrightarrow> total new = total old \<and> consumed new = consumed old"
  shows "map total (leafs_all (replace_row old new s) q) = map total (leafs_all s q) \<and>
         map consumed (leafs_all (replace_row old new s) q) = map consumed (leafs_all s q)"
proof (cases "pe_id old \<in> set (leafs q)")
  case True
  with assms(2) have "total new = total old" "consumed new = consumed old" by simp_all
  then show ?thesis
    unfolding leafs_all_def filter_ids_replace [OF assms(1)]
    by (simp add: map_total_replace map_consumed_replace)
next
  case False
  then have "old \<notin> set (filter (\<lambda>l. pe_id l \<in> set (leafs q)) s)" by simp
  then show ?thesis
    unfolding leafs_all_def filter_ids_replace [OF assms(1)]
    by (simp add: replace_row_absent)
qed

lemma sums_leafs_replace:
  assumes "pe_id new = pe_id old"
      and "pe_id old \<in> set (leafs q) \<Longrightarrow> total new = total old \<and> consumed new = consumed old"
  shows "sums_leafs (replace_row old new s) q = sums_leafs s q"
  using leaf_amounts_replace [OF assms, where s = s] by (simp add: sums_leafs_def)

lemma links_ok_replace:
  assumes ok: "links_ok objs s" and old: "old \<in> set s"
      and new: "new = old\<lparr>leafs := L, total := T, consumed := C\<rparr>"
      and L: "set L \<subseteq> pe_id ` set s"
      and LL: "\<forall>l \<in> set s. pe_id l \<in> set L \<longrightarrow> is_leaf objs l"
  shows "links_ok objs (replace_row old new s)"
proof -
  let ?s' = "replace_row old new s"
  have ids: "map pe_id ?s' = map pe_id s"
    by (rule map_pe_id_replace) (simp add: new)
  then have idset: "pe_id ` set ?s' = pe_id ` set s"
    by (metis set_map)
  have rows: "set ?s' = insert new (set s - {old})"
    by (rule set_replace_row [OF old])
  have pk: "primary_key ?s'"
    using ok by (simp add: links_ok_def primary_key_def ids)
  have ex: "leafs_exist ?s'"
    using ok L unfolding links_ok_def leafs_exist_iff idset rows
    by (auto simp: new)
  have "is_leaf objs l" if r: "r \<in> set ?s'" and l: "l \<in> set ?s'" and m: "pe_id l \<in> set (leafs r)"
    for r l
  proof -
    from l obtain l0 where l0: "l0 \<in> set s" "pe_id l0 = pe_id l" "is_leaf objs l0 = is_leaf objs l"
      unfolding rows using old by (auto simp: new)
    have "is_leaf objs l0"
    proof (cases "r = new")
      case True
      with m l0 LL show ?thesis by (simp add: new)
    next
      case False
      with r have "r \<in> set s" unfolding rows by simp
      with ok l0 m show ?thesis
        unfolding links_ok_def leafs_are_leaf_iff by auto
    qed
    with l0 show ?thesis by simp
  qed
  then have "leafs_are_leaf objs ?s'" unfolding leafs_are_leaf_iff by blast
  with pk ex show ?thesis by (simp add: links_ok_def)
qed

lemma filter_replace_row:
  "P new = P old \<Longrightarrow> filter P (replace_row old new s) = replace_row old new (filter P s)"
  unfolding replace_row_def by (induction s) auto

lemma length_replace_row [simp]: "length (replace_row old new s) = length s"
  by (simp add: replace_row_def)

lemma new_id_not_in: "new_id s \<notin> pe_id ` set s"
proof
  assume "new_id s \<in> pe_id ` set s"
  then obtain x where "x \<in> set s" "pe_id x = new_id s" by auto
  with new_id_neq show False by blast
qed

lemma links_ok_append:
  assumes "links_ok objs s" and "pe_id n = new_id s" and "leafs n = []"
  shows "links_ok objs (s @ [n])"
proof -
  have fresh: "pe_id n \<notin> pe_id ` set s" using new_id_not_in assms(2) by simp
  have "primary_key (s @ [n])"
    using assms(1) fresh by (simp add: links_ok_def primary_key_def)
  moreover have "leafs_exist (s @ [n])"
    using assms(1,3) unfolding links_ok_def leafs_exist_iff by auto
  moreover have "leafs_are_leaf objs (s @ [n])"
  proof -
    have "\<forall>r \<in> set s. pe_id n \<notin> set (leafs r)"
      using assms(1) fresh unfolding links_ok_def leafs_exist_iff by auto
    with assms(1,3) show ?thesis
      unfolding links_ok_def leafs_are_leaf_iff by auto
  qed
  ultimately show ?thesis by (simp add: links_ok_def)
qed

lemma leafs_all_append:
  assumes "links_ok objs s" and "pe_id n = new_id s" and "q \<in> set s"
  shows "leafs_all (s @ [n]) q = leafs_all s q"
proof -
  have "pe_id n \<notin> pe_id ` set s" using new_id_not_in assms(2) by simp
  moreover have "set (leafs q) \<subseteq> pe_id ` set s"
    using assms(1,3) unfolding links_ok_def leafs_exist_iff by blast
  ultimately have "pe_id n \<notin> set (leafs q)" by blast
  then show ?thesis by (simp add: leafs_all_def)
qed

lemma new_estimate_fields:
  "pe_id (new_estimate i ct oid m y) = i"
  "leafs (new_estimate i ct oid m y) = []"
  "total (new_estimate i ct oid m y) = 0"
  "consumed (new_estimate i ct oid m y) = 0"
  "is_manually_input (new_estimate i ct oid m y) = False"
  by (simp_all add: new_estimate_def)

lemma new_estimate_matches:
  "matches_parent e parent' (new_estimate i (fst parent) (snd parent) (month e) (year e))
     \<longleftrightarrow> parent' = parent"
  by (auto simp: matches_parent_def new_estimate_def prod_eq_iff)

lemma get_or_create_parent:
  assumes ok: "links_ok objs s"
      and uniq: "length (filter (matches_parent e parent) s) \<le> 1"
  shows "\<exists>s1 pe c.
           get_or_create s (fst parent) (snd parent) (month e) (year e) None = Inr (s1, pe, c) \<and>
           links_ok objs s1 \<and> pe \<in> set s1 \<and> matches_parent e parent pe \<and>
           filter (matches_parent e parent) s1 = [pe] \<and>
           set s \<subseteq> set s1 \<and> set s1 \<subseteq> insert pe (set s) \<and>
           (\<forall>q \<in> set s. sums_leafs s1 q = sums_leafs s q) \<and>
           (pe \<notin> set s \<longrightarrow> sums_leafs s1 pe \<and> leafs pe = []) \<and>
           (\<forall>parent'. length (filter (matches_parent e parent') s) \<le> 1 \<longrightarrow>
                       length (filter (matches_parent e parent') s1) \<le> 1)"
proof (cases "filter (matches_parent e parent) s")
  case Nil
  let ?n = "new_estimate (new_id s) (fst parent) (snd parent) (month e) (year e)"
  let ?s1 = "s @ [?n]"
  have g: "get_or_create s (fst parent) (snd parent) (month e) (year e) None = Inr (?s1, ?n, True)"
    by (simp add: get_or_create_def lookup_matches Nil Let_def)
  have ok1: "links_ok objs ?s1"
    by (rule links_ok_append [OF ok]) (simp_all add: new_estimate_fields)
  have m: "matches_parent e parent ?n" by (simp add: new_estimate_matches)
  have f: "filter (matches_parent e parent) ?s1 = [?n]" by (simp add: Nil m)
  have same: "\<forall>q \<in> set s. sums_leafs ?s1 q = sums_leafs s q"
    using leafs_all_append [OF ok, of ?n] by (simp add: sums_leafs_def new_estimate_fields)
  have new: "sums_leafs ?s1 ?n \<and> leafs ?n = []"
    by (simp add: sums_leafs_def leafs_all_def new_estimate_fields)
  have others: "\<forall>parent'. length (filter (matches_parent e parent') s) \<le> 1 \<longrightarrow>
                       length (filter (matches_parent e parent') ?s1) \<le> 1"
  proof (intro allI impI)
    fix parent'
    assume a: "length (filter (matches_parent e parent') s) \<le> 1"
    show "length (filter (matches_parent e parent') ?s1) \<le> 1"
    proof (cases "parent' = parent")
      case True
      then show ?thesis using f by simp
    next
      case False
      then have "\<not> matches_parent e parent' ?n" by (simp add: new_estimate_matches)
      with a show ?thesis by simp
    qed
  qed
  from g ok1 m f same new others show ?thesis
    by (intro exI [of _ ?s1] exI [of _ ?n] exI [of _ True]) auto
next
  case (Cons pe rest)
  with uniq have one: "filter (matches_parent e parent) s = [pe]" by simp
  then have "pe \<in> set (filter (matches_parent e parent) s)" by simp
  then have pe: "pe \<in> set s" "matches_parent e parent pe" by simp_all
  have g: "get_or_create s (fst parent) (snd parent) (month e) (year e) None = Inr (s, pe, False)"
    by (simp add: get_or_create_def lookup_matches one)
  from g ok pe one show ?thesis
    by (intro exI [of _ s] exI [of _ pe] exI [of _ False]) auto
qed

lemma present_iff: "present objs s e \<longleftrightarrow> (\<exists>l \<in> set s. pe_id l = pe_id e \<and> is_leaf objs l = is_leaf objs e)"
  by (simp add: present_def list_ex_iff)

lemma rewrite_row:
  assumes ok: "links_ok objs s" and old: "old \<in> set s"
      and new: "new = old\<lparr>leafs := L, total := T, consumed := C\<rparr>"
      and L: "set L \<subseteq> pe_id ` set s"
      and LL: "\<forall>l \<in> set s. pe_id l \<in> set L \<longrightarrow> is_leaf objs l"
      and keep: "is_leaf objs old \<longrightarrow> T = total old \<and> C = consumed old"
  shows "links_ok objs (replace_row old new s)"
    and "set (replace_row old new s) = insert new (set s - {old})"
    and "q \<in> set s \<or> leafs q = L \<Longrightarrow> sums_leafs (replace_row old new s) q = sums_leafs s q"
    and "present objs s e \<Longrightarrow> present objs (replace_row old new s) e"
    and "filter (matches_parent e parent) (replace_row old new s) =
           replace_row old new (filter (matches_parent e parent) s)"
proof -
  show "links_ok objs (replace_row old new s)"
    by (rule links_ok_replace [OF ok old new L LL])
  show rows: "set (replace_row old new s) = insert new (set s - {old})"
    by (rule set_replace_row [OF old])
  show "sums_leafs (replace_row old new s) q = sums_leafs s q" if q: "q \<in> set s \<or> leafs q = L"
  proof (rule sums_leafs_replace)
    show "pe_id new = pe_id old" by (simp add: new)
    assume m: "pe_id old \<in> set (leafs q)"
    have "is_leaf objs old"
      using q
    proof
      assume "q \<in> set s"
      with ok old m show ?thesis unfolding links_ok_def leafs_are_leaf_iff by blast
    next
      assume "leafs q = L"
      with LL old m show ?thesis by simp
    qed
    with keep show "total new = total old \<and> consumed new = consumed old" by (simp add: new)
  qed
  show "present objs (replace_row old new s) e" if "present objs s e"
  proof -
    from that obtain l where l: "l \<in> set s" "pe_id l = pe_id e" "is_leaf objs l = is_leaf objs e"
      unfolding present_iff by blast
    show ?thesis
    proof (cases "l = old")
      case True
      with l have "new \<in> set (replace_row old new s)" "pe_id new = pe_id e"
                  "is_leaf objs new = is_leaf objs e"
        unfolding rows by (simp_all add: new)
      then show ?thesis unfolding present_iff by blast
    next
      case False
      with l have "l \<in> set (replace_row old new s)" unfolding rows by simp
      with l show ?thesis unfolding present_iff by blast
    qed
  qed
  show "filter (matches_parent e parent) (replace_row old new s) =
          replace_row old new (filter (matches_parent e parent) s)"
    by (rule filter_replace_row) (simp add: new)
qed

lemma replace_row_single: "replace_row old new [old] = [new]"
  by (simp add: replace_row_def)

lemma leafs_add_replace:
  assumes "links_ok objs s" and "pe \<in> set s"
  shows "leafs_add s pe e =
           replace_row pe (pe\<lparr>leafs := leafs pe @ [pe_id e], total := total pe,
                               consumed := consumed pe\<rparr>) s"
proof -
  from assms have pk: "primary_key s" by (simp add: links_ok_def)
  show ?thesis
    unfolding leafs_add_def
    using by_id_replace [OF pk assms(2), of "\<lambda>r. r\<lparr>leafs := leafs r @ [pe_id e]\<rparr>"]
    by simp
qed

lemma update_from_leaf_replace:
  assumes "links_ok objs s" and "p \<in> set s" and "\<not> is_leaf objs p"
  shows "update_from_leaf objs s p =
           replace_row p (p\<lparr>leafs := leafs p,
                            total := sum_list (map total (leafs_all s p)),
                            consumed := sum_list (map consumed (leafs_all s p))\<rparr>) s"
proof -
  from assms have pk: "primary_key s" by (simp add: links_ok_def)
  show ?thesis
    unfolding update_from_leaf_def save_total_consumed_def Let_def
    using assms(3)
      by_id_replace [OF pk assms(2),
        of "\<lambda>r. r\<lparr>total := sum_list (map total (leafs_all s p)),
                    consumed := sum_list (map consumed (leafs_all s p))\<rparr>"]
    by (simp cong: if_cong)
qed

text \<open>update_from_leaf on a row of the table.\<close>

lemma update_from_leaf_row:
  assumes ok: "links_ok objs s" and p: "p \<in> set s"
  shows "\<exists>p'. links_ok objs (update_from_leaf objs s p) \<and>
           set (update_from_leaf objs s p) = insert p' (set s - {p}) \<and>
           p' = p\<lparr>total := total p', consumed := consumed p'\<rparr> \<and>
           (\<not> is_leaf objs p \<longrightarrow> sums_leafs (update_from_leaf objs s p) p') \<and>
           (\<forall>q \<in> set s. q \<noteq> p \<longrightarrow> sums_leafs (update_from_leaf objs s p) q = sums_leafs s q) \<and>
           (\<forall>e. present objs s e \<longrightarrow> present objs (update_from_leaf objs s p) e) \<and>
           (\<forall>e parent. filter (matches_parent e parent) (update_from_leaf objs s p) =
                        replace_row p p' (filter (matches_parent e parent) s))"
proof (cases "is_leaf objs p")
  case True
  then have same: "update_from_leaf objs s p = s" by (simp add: update_from_leaf_def)
  have "replace_row p p t = t" for t by (simp add: replace_row_def)
  with same True ok p show ?thesis
    by (intro exI [of _ p]) auto
next
  case False
  let ?T = "sum_list (map total (leafs_all s p))"
  let ?C = "sum_list (map consumed (leafs_all s p))"
  let ?p' = "p\<lparr>leafs := leafs p, total := ?T, consumed := ?C\<rparr>"
  let ?s' = "replace_row p ?p' s"
  have eq: "update_from_leaf objs s p = ?s'" by (rule update_from_leaf_replace [OF ok p False])
  have L: "set (leafs p) \<subseteq> pe_id ` set s"
    using ok p unfolding links_ok_def leafs_exist_iff by blast
  have LL: "\<forall>l \<in> set s. pe_id l \<in> set (leafs p) \<longrightarrow> is_leaf objs l"
    using ok p unfolding links_ok_def leafs_are_leaf_iff by blast
  have keep: "is_leaf objs p \<longrightarrow> ?T = total p \<and> ?C = consumed p" using False by simp
  note rw = rewrite_row [OF ok p refl L LL keep]
  have a: "links_ok objs ?s'" by (rule rw(1))
  have b: "set ?s' = insert ?p' (set s - {p})" by (rule rw(2))
  have c: "sums_leafs ?s' q = sums_leafs s q" if "q \<in> set s \<or> leafs q = leafs p" for q
    by (rule rw(3) [OF that])
  have "sums_leafs s ?p'" by (simp add: sums_leafs_def leafs_all_def)
  with c [of ?p'] have d: "sums_leafs ?s' ?p'" by simp
  have e: "\<forall>e. present objs s e \<longrightarrow> present objs ?s' e" using rw(4) by blast
  have f: "\<forall>e parent. filter (matches_parent e parent) ?s' =
             replace_row p ?p' (filter (matches_parent e parent) s)"
    using rw(5) by blast
  from a b c d e f show ?thesis
    unfolding eq by (intro exI [of _ ?p']) auto
qed

lemma is_leaf_amounts [simp]: "is_leaf objs (r\<lparr>total := T, consumed := C\<rparr>) = is_leaf objs r"
  unfolding is_leaf_def scope_object_amounts by (rule refl)

lemma matches_parent_amounts [simp]:
  "matches_parent e parent (r\<lparr>total := T, consumed := C\<rparr>) = matches_parent e parent r"
  by (simp add: matches_parent_def)

lemma is_leaf_leafs [simp]: "is_leaf objs (r\<lparr>leafs := L\<rparr>) = is_leaf objs r"
  unfolding is_leaf_def scope_object_leafs by (rule refl)

lemma matches_parent_leafs [simp]:
  "matches_parent e parent (r\<lparr>leafs := L\<rparr>) = matches_parent e parent r"
  by (simp add: matches_parent_def)

lemma update_ancestor_step:
  assumes ok: "links_ok objs s" and pres: "present objs s e"
      and uniq: "length (filter (matches_parent e parent) s) \<le> 1"
  shows "\<exists>s1. update_ancestor objs s e parent = Inr s1 \<and> links_ok objs s1 \<and> present objs s1 e \<and>
           (\<forall>p \<in> set s1. matches_parent e parent p \<and> \<not> is_leaf objs p \<longrightarrow> sums_leafs s1 p) \<and>
           (\<forall>p \<in> set s1. \<not> matches_parent e parent p \<longrightarrow>
              p \<in> set s \<and> sums_leafs s1 p = sums_leafs s p) \<and>
           (\<exists>p \<in> set s1. matches_parent e parent p) \<and>
           (\<forall>parent'. length (filter (matches_parent e parent') s) \<le> 1 \<longrightarrow>
                       length (filter (matches_parent e parent') s1) \<le> 1)"
proof -
  from get_or_create_parent [OF ok uniq]
  obtain s1a pe c where
    g: "get_or_create s (fst parent) (snd parent) (month e) (year e) None = Inr (s1a, pe, c)"
    and ok_a: "links_ok objs s1a" and pe: "pe \<in> set s1a" and pe_m: "matches_parent e parent pe"
    and f_a: "filter (matches_parent e parent) s1a = [pe]"
    and sub: "set s \<subseteq> set s1a" and sup: "set s1a \<subseteq> insert pe (set s)"
    and sums_a: "\<forall>q \<in> set s. sums_leafs s1a q = sums_leafs s q"
    and len_a: "\<forall>parent'. length (filter (matches_parent e parent') s) \<le> 1 \<longrightarrow>
                  length (filter (matches_parent e parent') s1a) \<le> 1"
    by blast
  define add where "add \<longleftrightarrow> is_leaf objs e \<and> pe_id e \<notin> set (leafs pe)"
  define L where "L = (if add then leafs pe @ [pe_id e] else leafs pe)"
  define pe' where "pe' = pe\<lparr>leafs := L, total := total pe, consumed := consumed pe\<rparr>"
  define s1b where "s1b = replace_row pe pe' s1a"
  from pres sub have pres_a: "present objs s1a e" unfolding present_iff by blast
  then obtain l0 where l0: "l0 \<in> set s1a" "pe_id l0 = pe_id e" "is_leaf objs l0 = is_leaf objs e"
    unfolding present_iff by blast
  have pk_a: "primary_key s1a" using ok_a by (simp add: links_ok_def)
  have Lsub: "set L \<subseteq> pe_id ` set s1a"
  proof -
    have "set (leafs pe) \<subseteq> pe_id ` set s1a"
      using ok_a pe unfolding links_ok_def leafs_exist_iff by blast
    moreover have "pe_id e \<in> pe_id ` set s1a" using l0(1,2) by (metis imageI)
    ultimately show ?thesis by (simp add: L_def)
  qed
  have LL: "\<forall>l \<in> set s1a. pe_id l \<in> set L \<longrightarrow> is_leaf objs l"
  proof (intro ballI impI)
    fix l assume l: "l \<in> set s1a" "pe_id l \<in> set L"
    show "is_leaf objs l"
    proof (cases "pe_id l \<in> set (leafs pe)")
      case True
      with ok_a pe l(1) show ?thesis unfolding links_ok_def leafs_are_leaf_iff by blast
    next
      case False
      with l(2) have "add" "pe_id l = pe_id e" by (auto simp: L_def split: if_splits)
      with l0 l(1) pk_a have "l = l0" "is_leaf objs e"
        by (auto simp: add_def intro: same_id_same_row)
      with l0 show ?thesis by simp
    qed
  qed
  have keep: "is_leaf objs pe \<longrightarrow> total pe = total pe \<and> consumed pe = consumed pe" by simp
  note rw = rewrite_row [OF ok_a pe pe'_def Lsub LL keep, folded s1b_def]
  have ok_b: "links_ok objs s1b" by (rule rw(1))
  have rows_b: "set s1b = insert pe' (set s1a - {pe})" by (rule rw(2))
  have pe'_in: "pe' \<in> set s1b" by (simp add: rows_b)
  have pe'_m: "matches_parent e parent pe'" using pe_m by (simp add: pe'_def)
  have s1b_eq: "s1b = (if add then leafs_add s1a pe e else s1a)"
  proof (cases add)
    case True
    then show ?thesis
      by (simp add: s1b_def pe'_def L_def leafs_add_replace [OF ok_a pe])
  next
    case False
    then have "pe' = pe" by (simp add: pe'_def L_def)
    then show ?thesis using False by (simp add: s1b_def replace_row_def)
  qed
  have pe'_eq: "pe' = (if add then pe\<lparr>leafs := leafs pe @ [pe_id e]\<rparr> else pe)"
    by (simp add: pe'_def L_def)
  have res: "update_ancestor objs s e parent = Inr (update_from_leaf objs s1b pe')"
    by (simp add: update_ancestor_def g s1b_eq pe'_eq add_def)
  from update_from_leaf_row [OF ok_b pe'_in]
  obtain p2 where
    ok1: "links_ok objs (update_from_leaf objs s1b pe')"
    and rows1: "set (update_from_leaf objs s1b pe') = insert p2 (set s1b - {pe'})"
    and p2: "p2 = pe'\<lparr>total := total p2, consumed := consumed p2\<rparr>"
    and sum2: "\<not> is_leaf objs pe' \<longrightarrow> sums_leafs (update_from_leaf objs s1b pe') p2"
    and sums1: "\<forall>q \<in> set s1b. q \<noteq> pe' \<longrightarrow>
                  sums_leafs (update_from_leaf objs s1b pe') q = sums_leafs s1b q"
    and pres1: "\<forall>e. present objs s1b e \<longrightarrow> present objs (update_from_leaf objs s1b pe') e"
    and filt1: "\<forall>e parent. filter (matches_parent e parent) (update_from_leaf objs s1b pe') =
                  replace_row pe' p2 (filter (matches_parent e parent) s1b)"
    by blast
  let ?s1 = "update_from_leaf objs s1b pe'"
  have p2_m: "matches_parent e parent p2" by (subst p2) (simp add: pe'_m)
  have p2_leaf: "is_leaf objs p2 = is_leaf objs pe'" by (subst p2) simp
  have targets: "filter (matches_parent e parent) ?s1 = [p2]"
    using filt1 [rule_format, of e parent] rw(5) [of e parent]
    by (simp add: f_a replace_row_single)
  have t1: "\<forall>p \<in> set ?s1. matches_parent e parent p \<and> \<not> is_leaf objs p \<longrightarrow> sums_leafs ?s1 p"
  proof (intro ballI impI)
    fix p assume p: "p \<in> set ?s1" "matches_parent e parent p \<and> \<not> is_leaf objs p"
    then have "p \<in> set (filter (matches_parent e parent) ?s1)" by simp
    then have "p = p2" by (simp add: targets)
    with p sum2 p2_leaf show "sums_leafs ?s1 p" by simp
  qed
  have t2: "\<forall>p \<in> set ?s1. \<not> matches_parent e parent p \<longrightarrow>
              p \<in> set s \<and> sums_leafs ?s1 p = sums_leafs s p"
  proof (intro ballI impI)
    fix p assume p: "p \<in> set ?s1" "\<not> matches_parent e parent p"
    with p2_m have "p \<noteq> p2" by auto
    with p(1) have pb: "p \<in> set s1b" "p \<noteq> pe'" unfolding rows1 by simp_all
    then have pa: "p \<in> set s1a" "p \<noteq> pe" unfolding rows_b by simp_all
    with sup have ps: "p \<in> set s" by auto
    have "sums_leafs ?s1 p = sums_leafs s1b p" using sums1 pb by blast
    also have "\<dots> = sums_leafs s1a p" using rw(3) [of p] pa by simp
    also have "\<dots> = sums_leafs s p" using sums_a ps by blast
    finally show "p \<in> set s \<and> sums_leafs ?s1 p = sums_leafs s p" using ps by simp
  qed
  have t3: "\<exists>p \<in> set ?s1. matches_parent e parent p"
    using p2_m unfolding rows1 by blast
  have t4: "\<forall>parent'. length (filter (matches_parent e parent') s) \<le> 1 \<longrightarrow>
              length (filter (matches_parent e parent') ?s1) \<le> 1"
  proof (intro allI impI)
    fix parent' assume "length (filter (matches_parent e parent') s) \<le> 1"
    with len_a have "length (filter (matches_parent e parent') s1a) \<le> 1" by blast
    then show "length (filter (matches_parent e parent') ?s1) \<le> 1"
      using filt1 [rule_format, of e parent'] rw(5) [of e parent'] by simp
  qed
  have t5: "present objs ?s1 e" using pres1 rw(4) [OF pres_a] by blast
  from res ok1 t5 t1 t2 t3 t4 show ?thesis by blast
qed

lemma update_ancestors_loop_sums:
  assumes "links_ok objs s" and "present objs s e"
      and "\<forall>parent \<in> set ps. length (filter (matches_parent e parent) s) \<le> 1"
  shows "\<exists>s'. update_ancestors_loop objs s e ps = Inr s' \<and> links_ok objs s' \<and>
           (\<forall>p \<in> set s'. (\<exists>parent \<in> set ps. matches_parent e parent p) \<and> \<not> is_leaf objs p \<longrightarrow>
                         sums_leafs s' p) \<and>
           (\<forall>p \<in> set s'. \<not> (\<exists>parent \<in> set ps. matches_parent e parent p) \<longrightarrow>
                         p \<in> set s \<and> sums_leafs s' p = sums_leafs s p)"
  using assms
proof (induction ps arbitrary: s)
  case Nil
  then show ?case by simp
next
  case (Cons parent ps)
  from Cons.prems(3) have u: "length (filter (matches_parent e parent) s) \<le> 1" by simp
  from update_ancestor_step [OF Cons.prems(1,2) u]
  obtain s1 where
    r1: "update_ancestor objs s e parent = Inr s1" and ok1: "links_ok objs s1" and pres1: "present objs s1 e"
    and t1: "\<forall>p \<in> set s1. matches_parent e parent p \<and> \<not> is_leaf objs p \<longrightarrow> sums_leafs s1 p"
    and t2: "\<forall>p \<in> set s1. \<not> matches_parent e parent p \<longrightarrow>
               p \<in> set s \<and> sums_leafs s1 p = sums_leafs s p"
    and t4: "\<forall>parent'. length (filter (matches_parent e parent') s) \<le> 1 \<longrightarrow>
               length (filter (matches_parent e parent') s1) \<le> 1"
    by blast
  from Cons.prems(3) t4
  have u1: "\<forall>parent \<in> set ps. length (filter (matches_parent e parent) s1) \<le> 1"
    by (metis list.set_intros(2))
  from Cons.IH [OF ok1 pres1 u1]
  obtain s' where
    r: "update_ancestors_loop objs s1 e ps = Inr s'" and ok': "links_ok objs s'"
    and i1: "\<forall>p \<in> set s'. (\<exists>parent \<in> set ps. matches_parent e parent p) \<and> \<not> is_leaf objs p \<longrightarrow>
               sums_leafs s' p"
    and i2: "\<forall>p \<in> set s'. \<not> (\<exists>parent \<in> set ps. matches_parent e parent p) \<longrightarrow>
               p \<in> set s1 \<and> sums_leafs s' p = sums_leafs s1 p"
    by blast
  have res: "update_ancestors_loop objs s e (parent # ps) = Inr s'" by (simp add: r1 r)
  have c1: "\<forall>p \<in> set s'. (\<exists>q \<in> set (parent # ps). matches_parent e q p) \<and> \<not> is_leaf objs p \<longrightarrow>
              sums_leafs s' p"
  proof (intro ballI impI)
    fix p
    assume p: "p \<in> set s'" "(\<exists>q \<in> set (parent # ps). matches_parent e q p) \<and> \<not> is_leaf objs p"
    show "sums_leafs s' p"
    proof (cases "\<exists>q \<in> set ps. matches_parent e q p")
      case True
      with i1 p show ?thesis by blast
    next
      case False
      with p have m: "matches_parent e parent p" by auto
      from i2 p(1) False have "p \<in> set s1" "sums_leafs s' p = sums_leafs s1 p" by blast+
      with t1 m p(2) show ?thesis by blast
    qed
  qed
  have c2: "\<forall>p \<in> set s'. \<not> (\<exists>q \<in> set (parent # ps). matches_parent e q p) \<longrightarrow>
              p \<in> set s \<and> sums_leafs s' p = sums_leafs s p"
  proof (intro ballI impI)
    fix p
    assume p: "p \<in> set s'" "\<not> (\<exists>q \<in> set (parent # ps). matches_parent e q p)"
    then have n: "\<not> (\<exists>q \<in> set ps. matches_parent e q p)" "\<not> matches_parent e parent p"
      by auto
    from i2 p(1) n(1) have a: "p \<in> set s1" "sums_leafs s' p = sums_leafs s1 p" by blast+
    from t2 a(1) n(2) have "p \<in> set s" "sums_leafs s1 p = sums_leafs s p" by blast+
    with a show "p \<in> set s \<and> sums_leafs s' p = sums_leafs s p" by simp
  qed
  from res ok' c1 c2 show ?case by blast
qed

text \<open>
  The propagation where no ancestor has two estimates for the period. On a table that
  satisfies its constraints, with at most one estimate per ancestor for the period and the
  object of \<open>e\<close> existing, \<^verbatim>\<open>update_ancestors\<close> of an estimate \<open>e\<close> returns, and in the
  resulting table every estimate of an ancestor of \<open>e\<close> for the period of \<open>e\<close> that is not
  a leaf has \<^verbatim>\<open>total\<close> and \<^verbatim>\<open>consumed\<close> equal to the sums over the estimates of its
  \<^verbatim>\<open>leafs\<close>; every other estimate that is not a leaf is a row of the table before and
  keeps the equation if it had it. \<^verbatim>\<open>update_from_leaf\<close> of a row that is not a leaf
  rewrites its \<^verbatim>\<open>total\<close> and \<^verbatim>\<open>consumed\<close> only, to these sums.
\<close>

lemma update_ancestors_single_estimate:
  assumes "links_ok objs s" and "e \<in> set s" and "scope_object objs e = Some sc"
      and "\<forall>parent \<in> set (get_ancestors sc).
             length (lookup s (fst parent) (snd parent) (month e) (year e) None) \<le> 1"
  shows "(\<exists>s'. update_ancestors get_ancestors objs s e = Inr s' \<and>
            (\<forall>p \<in> set s'. \<not> is_leaf objs p \<and>
                 (\<exists>parent \<in> set (get_ancestors sc). matches_parent e parent p) \<longrightarrow>
               sums_leafs s' p) \<and>
            (\<forall>p \<in> set s'. \<not> is_leaf objs p \<and>
                 \<not> (\<exists>parent \<in> set (get_ancestors sc). matches_parent e parent p) \<longrightarrow>
               p \<in> set s \<and> (sums_leafs s p \<longrightarrow> sums_leafs s' p))) \<and>
         (\<forall>p \<in> set s. \<not> is_leaf objs p \<longrightarrow>
            (\<exists>p' \<in> set (update_from_leaf objs s p).
               p' = p\<lparr>total := total p', consumed := consumed p'\<rparr> \<and>
               sums_leafs (update_from_leaf objs s p) p'))"
proof
  from assms(2) have pres: "present objs s e" unfolding present_iff by blast
  from assms(4)
  have u: "\<forall>parent \<in> set (get_ancestors sc). length (filter (matches_parent e parent) s) \<le> 1"
    by (simp add: lookup_matches)
  from update_ancestors_loop_sums [OF assms(1) pres u]
  obtain s' where
    r: "update_ancestors_loop objs s e (get_ancestors sc) = Inr s'"
    and i1: "\<forall>p \<in> set s'. (\<exists>parent \<in> set (get_ancestors sc). matches_parent e parent p) \<and>
               \<not> is_leaf objs p \<longrightarrow> sums_leafs s' p"
    and i2: "\<forall>p \<in> set s'. \<not> (\<exists>parent \<in> set (get_ancestors sc). matches_parent e parent p) \<longrightarrow>
               p \<in> set s \<and> sums_leafs s' p = sums_leafs s p"
    by blast
  have "update_ancestors get_ancestors objs s e = Inr s'"
    by (simp add: update_ancestors_def assms(3) r)
  with i1 i2
  show "\<exists>s'. update_ancestors get_ancestors objs s e = Inr s' \<and>
            (\<forall>p \<in> set s'. \<not> is_leaf objs p \<and>
                 (\<exists>parent \<in> set (get_ancestors sc). matches_parent e parent p) \<longrightarrow>
               sums_leafs s' p) \<and>
            (\<forall>p \<in> set s'. \<not> is_leaf objs p \<and>
                 \<not> (\<exists>parent \<in> set (get_ancestors sc). matches_parent e parent p) \<longrightarrow>
               p \<in> set s \<and> (sums_leafs s p \<longrightarrow> sums_leafs s' p))"
    by (intro exI [of _ s']) auto
next
  show "\<forall>p \<in> set s. \<not> is_leaf objs p \<longrightarrow>
            (\<exists>p' \<in> set (update_from_leaf objs s p).
               p' = p\<lparr>total := total p', consumed := consumed p'\<rparr> \<and>
               sums_leafs (update_from_leaf objs s p) p')"
  proof (intro ballI impI)
    fix p assume p: "p \<in> set s" "\<not> is_leaf objs p"
    from update_from_leaf_row [OF assms(1) p(1)] p(2)
    obtain p' where "set (update_from_leaf objs s p) = insert p' (set s - {p})"
      "p' = p\<lparr>total := total p', consumed := consumed p'\<rparr>"
      "sums_leafs (update_from_leaf objs s p) p'"
      by blast
    then show "\<exists>p' \<in> set (update_from_leaf objs s p).
               p' = p\<lparr>total := total p', consumed := consumed p'\<rparr> \<and>
               sums_leafs (update_from_leaf objs s p) p'"
      by blast
  qed
qed

lemma july_table_result:
  "update_ancestors test_ancestors test_objects july_table instance_estimate = Inr july_table_updated"
  by code_simp

lemma july_table_ok:
  "links_ok test_objects july_table" "instance_estimate \<in> set july_table"
  "scope_object test_objects instance_estimate = Some (ResourceModel ''TestInstance'', 9)"
  "\<forall>parent \<in> set (test_ancestors (ResourceModel ''TestInstance'', 9)).
     length (lookup july_table (fst parent) (snd parent) (month instance_estimate)
               (year instance_estimate) None) \<le> 1"
  by (simp_all add: links_ok_def primary_key_def leafs_exist_def leafs_are_leaf_def leafs_all_def
        july_table_def instance_estimate_def other_instance_estimate_def link_estimate_def
        new_estimate_def scope_def scope_object_def test_objects_def is_leaf_def is_leaf_scope_def
        test_ancestors_def lookup_def)

lemma july_table_sums:
  "update_ancestors test_ancestors test_objects july_table instance_estimate = Inr july_table_updated \<and>
   list_all (\<lambda>p. is_leaf test_objects p \<or> sums_leafs july_table_updated p) july_table_updated \<and>
   map total july_table_updated = [30, 12, 42, 30, 30]"
proof -
  from update_ancestors_single_estimate [where s = july_table and e = instance_estimate
         and sc = "(ResourceModel ''TestInstance'', 9)" and get_ancestors = test_ancestors
         and objs = test_objects,
         OF july_table_ok]
  obtain s' where
    r: "update_ancestors test_ancestors test_objects july_table instance_estimate = Inr s'"
    and i1: "\<forall>p \<in> set s'. \<not> is_leaf test_objects p \<and>
               (\<exists>parent \<in> set (test_ancestors (ResourceModel ''TestInstance'', 9)).
                  matches_parent instance_estimate parent p) \<longrightarrow> sums_leafs s' p"
    and i2: "\<forall>p \<in> set s'. \<not> is_leaf test_objects p \<and>
               \<not> (\<exists>parent \<in> set (test_ancestors (ResourceModel ''TestInstance'', 9)).
                  matches_parent instance_estimate parent p) \<longrightarrow>
               p \<in> set july_table \<and> (sums_leafs july_table p \<longrightarrow> sums_leafs s' p)"
    by blast
  from r july_table_result have s': "s' = july_table_updated" by simp
  have leaves: "\<forall>p \<in> set july_table.
                  \<not> (\<exists>parent \<in> set (test_ancestors (ResourceModel ''TestInstance'', 9)).
                       matches_parent instance_estimate parent p) \<longrightarrow> is_leaf test_objects p"
    by (simp add: july_table_def instance_estimate_def other_instance_estimate_def
          link_estimate_def new_estimate_def scope_def scope_object_def test_objects_def
          is_leaf_def is_leaf_scope_def test_ancestors_def matches_parent_def)
  have "\<forall>p \<in> set july_table_updated. is_leaf test_objects p \<or> sums_leafs july_table_updated p"
    using i1 i2 leaves unfolding s' by blast
  then have "list_all (\<lambda>p. is_leaf test_objects p \<or> sums_leafs july_table_updated p) july_table_updated"
    by (simp add: list_all_iff)
  moreover have "map total july_table_updated = [30, 12, 42, 30, 30]"
    by (simp add: july_table_updated_def instance_estimate_def other_instance_estimate_def
          link_estimate_def new_estimate_def)
  ultimately show ?thesis using july_table_result by simp
qed

text \<open>
  An estimate whose object no longer exists: \<^verbatim>\<open>self.scope\<close> is \<^verbatim>\<open>None\<close>, so the estimate of a
  resource is no leaf, \<^verbatim>\<open>update_ancestors\<close> raises \<^verbatim>\<open>AttributeError\<close> and \<^verbatim>\<open>update_from_leaf\<close>
  overwrites its amounts with the sums over its empty \<^verbatim>\<open>leafs\<close>.
\<close>

lemma update_ancestors_deleted_scope:
  "\<not> is_leaf (\<lambda>sc. False) instance_estimate \<and>
   update_ancestors test_ancestors (\<lambda>sc. False) july_table instance_estimate =
     Inl AttributeError \<and>
   update_from_leaf (\<lambda>sc. False) july_table instance_estimate =
     [instance_estimate\<lparr>total := 0, consumed := 0\<rparr>, other_instance_estimate, link_estimate]"
  by code_simp

text \<open>
  C1 (the code departs from the statement). \<^verbatim>\<open>update_ancestors\<close> looks the estimate of a
  parent up without the keyword \<^verbatim>\<open>is_manually_input\<close>, and \<^verbatim>\<open>unique_together\<close> lets a manual
  and an automatic estimate of one scope and period coexist. On the table
  \<open>july_table_manual\<close>, which satisfies its constraints, the propagation triggered by the
  change of the leaf's total to 50 raises \<^verbatim>\<open>MultipleObjectsReturned\<close> at the first ancestor
  and rewrites no row: the automatic estimate of the service project link, which is not a
  leaf, keeps the total 42 while the totals of the estimates in its \<^verbatim>\<open>leafs\<close> sum to 62.
\<close>

theorem update_ancestors_stale_sums:
  "unique_together july_table_manual \<and> links_ok test_objects july_table_manual \<and>
   update_ancestors test_ancestors test_objects july_table_manual
     (instance_estimate\<lparr>total := 50\<rparr>) = Inl MultipleObjectsReturned \<and>
   list_ex (\<lambda>p. scope p = Some test_link \<and> \<not> is_manually_input p \<and>
                \<not> is_leaf test_objects p \<and> leafs p = [2, 1] \<and> total p = 42 \<and>
                sum_list (map total (leafs_all july_table_manual p)) = 62 \<and>
                \<not> sums_leafs july_table_manual p) july_table_manual"
  by code_simp

text \<open>
  C9 (the code departs from the statement). \<^verbatim>\<open>update_ancestors\<close> looks the estimate of a
  parent up without the keyword \<^verbatim>\<open>is_manually_input\<close>: where the only estimate of the
  service project link for July 2015 is a manual one with the total 100, it links the leaf
  to it and overwrites its total with 30; where a manual and an automatic estimate both
  exist, \<^verbatim>\<open>get_or_create\<close> raises \<^verbatim>\<open>MultipleObjectsReturned\<close>.
\<close>

theorem update_ancestors_overwrites_manual:
  "update_ancestors test_ancestors test_objects [instance_estimate, manual_link_estimate]
     instance_estimate =
     Inr [instance_estimate,
          manual_link_estimate\<lparr>leafs := [1], total := 30, consumed := 10\<rparr>,
          (new_estimate 5 Project 2 7 2015)\<lparr>leafs := [1], total := 30, consumed := 10\<rparr>,
          (new_estimate 6 Customer 1 7 2015)\<lparr>leafs := [1], total := 30, consumed := 10\<rparr>] \<and>
   is_manually_input manual_link_estimate \<and> total manual_link_estimate = 100 \<and>
   update_ancestors test_ancestors test_objects
     [instance_estimate, link_estimate, manual_link_estimate] instance_estimate =
     Inl MultipleObjectsReturned"
  by code_simp

subsection \<open>Manual estimates\<close>

text \<open>
  The table \<open>july_table_manual\<close> is what the creation of the manual estimate and the saving
  of the leaf's new total make of \<open>july_table_updated\<close>.
\<close>

lemma july_table_manual_created:
  "(case create_manual_estimate july_table_updated test_link 7 2015 100 of
      Inl x \<Rightarrow> None
    | Inr s \<Rightarrow> Some (save_total_consumed s (instance_estimate\<lparr>total := 50\<rparr>))) =
   Some july_table_manual"
  by code_simp

lemma filter_unique:
  assumes "distinct (map f xs)" and "a \<in> set xs" and "P a"
      and "\<forall>x \<in> set xs. P x \<longrightarrow> f x = f a"
  shows "filter P xs = [a]"
  using assms
proof (induction xs)
  case Nil
  then show ?case by simp
next
  case (Cons x xs)
  from Cons.prems(1) have fx: "f x \<notin> f ` set xs" and d: "distinct (map f xs)" by simp_all
  show ?case
  proof (cases "x = a")
    case True
    have "\<not> P z" if z: "z \<in> set xs" for z
    proof
      assume "P z"
      with Cons.prems(4) z have "f z = f a" by simp
      moreover from z have "f z \<in> f ` set xs" by (rule imageI)
      ultimately show False using fx True by simp
    qed
    then have "filter P xs = []" by (simp add: filter_empty_conv)
    with True Cons.prems(3) show ?thesis by simp
  next
    case False
    with Cons.prems(2) have a: "a \<in> set xs" by simp
    have "\<not> P x"
    proof
      assume "P x"
      with Cons.prems(4) have "f x = f a" by simp
      moreover from a have "f a \<in> f ` set xs" by (rule imageI)
      ultimately show False using fx by simp
    qed
    moreover from Cons.prems(4) have "\<forall>x \<in> set xs. P x \<longrightarrow> f x = f a" by simp
    from Cons.IH [OF d a Cons.prems(3) this] have "filter P xs = [a]" .
    ultimately show ?thesis by simp
  qed
qed

lemma same_period_rows:
  assumes ut: "unique_together s" and a: "a \<in> set s" "same_period sc m y a"
      and auto: "\<not> is_manually_input a"
      and none: "\<not> list_ex (\<lambda>r. same_period sc m y r \<and> is_manually_input r) s"
  shows "filter (same_period sc m y) s = [a]"
proof -
  let ?xs = "filter (\<lambda>r. scope r \<noteq> None) s"
  have "filter (same_period sc m y) ?xs = filter (same_period sc m y) s"
    unfolding filter_filter by (rule filter_cong) (auto simp: same_period_def)
  moreover have d: "distinct (map unique_key ?xs)" using ut by (simp only: unique_together_def)
  have ax: "a \<in> set ?xs" using a by (simp add: same_period_def)
  have k: "\<forall>x \<in> set ?xs. same_period sc m y x \<longrightarrow> unique_key x = unique_key a"
  proof (intro ballI impI)
    fix x assume x: "x \<in> set ?xs" "same_period sc m y x"
    with none have "\<not> is_manually_input x" by (auto simp: list_ex_iff)
    with x(2) a(2) auto show "unique_key x = unique_key a"
      by (simp add: unique_key_def same_period_def)
  qed
  have "filter (same_period sc m y) ?xs = [a]"
    by (rule filter_unique [OF d ax a(2) k])
  ultimately show ?thesis by simp
qed

lemma same_period_visible [simp]:
  "same_period sc m y (r\<lparr>is_visible := b\<rparr>) = same_period sc m y r"
  by (simp add: same_period_def scope_def split: option.split)

text \<open>
  C3, on the model of the manual estimates written from the spec. Where the
  table has an automatic estimate of a scope for a month and no manual one, creating a
  manual estimate for that scope and month returns a table in which the automatic estimate
  is still a row, now hidden, and the manual estimate is the only visible estimate of the
  scope and month; deleting the manual estimate then returns a table in which the
  automatic estimate is a row and the only visible estimate of the scope and month.
\<close>

theorem manual_estimate_hides_automatic:
  assumes ut: "unique_together s"
      and a: "a \<in> set s" "same_period sc m y a" "\<not> is_manually_input a"
      and none: "\<not> list_ex (\<lambda>r. same_period sc m y r \<and> is_manually_input r) s"
  shows "\<exists>s1 manual.
           create_manual_estimate s sc m y tot = Inr s1 \<and>
           a\<lparr>is_visible := False\<rparr> \<in> set s1 \<and>
           visible_estimates s1 sc m y = [manual] \<and>
           is_manually_input manual \<and> total manual = tot \<and>
           (\<exists>s2. delete_estimate s1 (pe_id manual) = Inr s2 \<and>
                 a\<lparr>is_visible := True\<rparr> \<in> set s2 \<and>
                 visible_estimates s2 sc m y = [a\<lparr>is_visible := True\<rparr>])"
proof -
  define hide where
    "hide = (\<lambda>r. if same_period sc m y r \<and> \<not> is_manually_input r
                  then r\<lparr>is_visible := False\<rparr> else r)"
  define manual where
    "manual = (new_estimate (new_id s) (fst sc) (snd sc) m y)
                \<lparr>total := tot, is_manually_input := True\<rparr>"
  define reveal where
    "reveal = (\<lambda>r. if same_period sc m y r \<and> \<not> is_manually_input r
                    then r\<lparr>is_visible := True\<rparr> else r)"
  let ?s1 = "map hide s @ [manual]"
  let ?s2 = "map reveal (map hide s)"
  have only: "filter (same_period sc m y) s = [a]"
    by (rule same_period_rows [OF ut a none])
  have man: "pe_id manual = new_id s" "is_manually_input manual" "total manual = tot"
            "is_visible manual" "same_period sc m y manual"
            "scope manual = Some sc" "month manual = m" "year manual = y"
    by (simp_all add: manual_def new_estimate_def same_period_def scope_def)
  have c: "create_manual_estimate s sc m y tot = Inr ?s1"
    using none by (simp add: create_manual_estimate_def hide_def manual_def)
  have hidden: "a\<lparr>is_visible := False\<rparr> \<in> set ?s1"
  proof -
    from a have "hide a = a\<lparr>is_visible := False\<rparr>" by (simp add: hide_def)
    with a(1) show ?thesis by (metis UnI1 imageI set_append set_map)
  qed
  have hide_period: "same_period sc m y (hide r) = same_period sc m y r" for r
    by (simp add: hide_def)
  have hide_id: "pe_id (hide r) = pe_id r" for r by (simp add: hide_def)
  have hide_manual: "is_manually_input (hide r) = is_manually_input r" for r
    by (simp add: hide_def)
  have "filter (\<lambda>r. same_period sc m y r \<and> is_visible r) (map hide s) = []"
  proof -
    have "\<not> (same_period sc m y (hide r) \<and> is_visible (hide r))" if "r \<in> set s" for r
      using none that by (auto simp: hide_def list_ex_iff)
    then show ?thesis by (simp add: filter_empty_conv)
  qed
  then have v1: "visible_estimates ?s1 sc m y = [manual]"
    by (simp add: visible_estimates_def man)
  have ids: "filter (\<lambda>r. pe_id r = new_id s) (map hide s) = []"
    using new_id_neq [of _ s] by (simp add: filter_empty_conv hide_id)
  then have rest: "filter (\<lambda>r. pe_id r \<noteq> new_id s) (map hide s) = map hide s"
    by (simp add: filter_empty_conv)
  have cond: "(scope r \<noteq> None \<and> scope r = scope manual \<and> month r = month manual \<and>
               year r = year manual \<and> \<not> is_manually_input r) =
              (same_period sc m y r \<and> \<not> is_manually_input r)" for r
    by (auto simp: man same_period_def)
  have f: "filter (\<lambda>r. pe_id r = pe_id manual) ?s1 = [manual]"
    by (simp add: man ids)
  have g: "filter (\<lambda>r. pe_id r \<noteq> pe_id manual) ?s1 = map hide s"
    by (simp add: man rest)
  have rv: "(\<lambda>r. if scope r \<noteq> None \<and> scope r = scope manual \<and> month r = month manual \<and>
                      year r = year manual \<and> \<not> is_manually_input r
                   then r\<lparr>is_visible := True\<rparr> else r) = reveal"
    unfolding reveal_def cond by (rule refl)
  have "delete_estimate ?s1 (pe_id manual) =
          Inr (map (\<lambda>r. if scope r \<noteq> None \<and> scope r = scope manual \<and>
                              month r = month manual \<and> year r = year manual \<and>
                              \<not> is_manually_input r
                           then r\<lparr>is_visible := True\<rparr> else r) (map hide s))"
    unfolding delete_estimate_def f g using man(2) by (simp del: not_None_eq map_map)
  then have d: "delete_estimate ?s1 (pe_id manual) = Inr ?s2"
    by (simp only: rv)
  have both: "reveal (hide a) = a\<lparr>is_visible := True\<rparr>"
    using a by (simp add: hide_def reveal_def)
  have shown: "a\<lparr>is_visible := True\<rparr> \<in> set ?s2"
  proof -
    from a(1) have "reveal (hide a) \<in> set ?s2" by simp
    then show ?thesis by (simp only: both)
  qed
  have period2: "same_period sc m y (reveal (hide r)) = same_period sc m y r" for r
    by (simp add: hide_def reveal_def)
  have "filter (\<lambda>r. same_period sc m y r \<and> is_visible r) ?s2 =
        map (\<lambda>r. reveal (hide r))
          (filter (\<lambda>r. is_visible (reveal (hide r))) (filter (same_period sc m y) s))"
    by (simp add: filter_map comp_def period2 conj_commute)
  also have "\<dots> = [a\<lparr>is_visible := True\<rparr>]"
    by (simp add: only both)
  finally have v2: "visible_estimates ?s2 sc m y = [a\<lparr>is_visible := True\<rparr>]"
    by (simp add: visible_estimates_def)
  from c hidden v1 man(2,3) d shown v2 show ?thesis by blast
qed

lemma link_table_ok:
  "unique_together [link_estimate]" "link_estimate \<in> set [link_estimate]"
  "same_period test_link 7 2015 link_estimate" "\<not> is_manually_input link_estimate"
  "\<not> list_ex (\<lambda>r. same_period test_link 7 2015 r \<and> is_manually_input r) [link_estimate]"
  "link_estimate\<lparr>is_visible := True\<rparr> = link_estimate"
  by (simp_all add: unique_together_def link_estimate_def new_estimate_def same_period_def
        scope_def test_link_def)

theorem manual_estimate_hides_automatic_witness:
  "\<exists>s1 manual s2.
     create_manual_estimate [link_estimate] test_link 7 2015 100 = Inr s1 \<and>
     link_estimate\<lparr>is_visible := False\<rparr> \<in> set s1 \<and>
     visible_estimates s1 test_link 7 2015 = [manual] \<and> is_manually_input manual \<and>
     delete_estimate s1 (pe_id manual) = Inr s2 \<and>
     link_estimate \<in> set s2 \<and>
     visible_estimates s2 test_link 7 2015 = [link_estimate]"
  using manual_estimate_hides_automatic [OF link_table_ok(1-5), of 100]
  unfolding link_table_ok(6) by blast

end
